theory Spec2Isabelle
  imports Complex_Main "HOL-Library.Multiset"
begin

section \<open>Data model\<close>

text \<open>
  The route optimiser of the repository: \<^verbatim>\<open>clarkeWrightAlgorithm\<close> and
  \<^verbatim>\<open>calculateDistance\<close> of the optimization controller, over the Mongoose
  documents \<^verbatim>\<open>Vehicle\<close>, \<^verbatim>\<open>Location\<close> and the route schema of
  \<^verbatim>\<open>Optimization\<close>.

  A JavaScript \<^verbatim>\<open>Number\<close> is a \<^typ>\<open>real\<close>; there is no NaN and no
  infinity. The sums and differences that the code forms of demands and capacities are the
  binary64 ones, rounded to the nearest double (\<open>js_add\<close>, \<open>js_sub\<close> below): the
  capacity check of a merge depends on the rounding. Coordinates, distances and savings are
  idealised: their arithmetic is the exact one, so a distance or a saving below is the value
  of the formula, not the double that the program computes of it. In particular the NaN that
  the program returns as the distance of points that are nearly antipodal, and what follows
  from it for the savings and their sort, lies outside this model. An
  \<^verbatim>\<open>ObjectId\<close> is only ever compared through
  \<^verbatim>\<open>toString()\<close> or used as the key of an object, so it is the string it prints as.
\<close>

type_synonym object_id = string

text \<open>
  Modelled from the spec: the \<^verbatim>\<open>Location\<close> schema is not among the sources. A
  location has the fields the algorithm reads: \<^verbatim>\<open>_id\<close>, \<^verbatim>\<open>name\<close>,
  \<^verbatim>\<open>latitude\<close>, \<^verbatim>\<open>longitude\<close>, \<^verbatim>\<open>demand\<close> and
  \<^verbatim>\<open>isDepot\<close>.
\<close>

record location =
  loc_id :: object_id
  loc_name :: string
  loc_latitude :: real
  loc_longitude :: real
  loc_demand :: real
  isDepot :: bool

text \<open>
  \<^verbatim>\<open>VehicleSchema\<close>: the fields \<^verbatim>\<open>user\<close> and \<^verbatim>\<open>date\<close> are
  never read by the algorithm and are left out. \<^verbatim>\<open>count\<close> is the number of times the
  loop \<^verbatim>\<open>for (let i = 0; i < vehicle.count; i++)\<close> runs.
\<close>

record vehicle =
  veh_id :: object_id
  veh_name :: string
  capacity :: real
  count :: nat

text \<open>
  An element of \<^verbatim>\<open>availableVehicles\<close>:
  \<^verbatim>\<open>{ ...vehicle.toObject(), remainingCapacity: vehicle.capacity }\<close>.
\<close>

record vehicle_instance = vehicle +
  remainingCapacity :: real

text \<open>The stops and routes of \<^verbatim>\<open>RouteSchema\<close>.\<close>

record stop =
  locationId :: object_id
  locationName :: string
  latitude :: real
  longitude :: real
  demand :: real
  order :: nat

record route =
  vehicleId :: object_id
  vehicleName :: string
  stops :: "stop list"
  totalDistance :: real
  totalCapacity :: real

text \<open>An element of the array \<^verbatim>\<open>savings\<close>.\<close>

record saving_entry =
  loc1 :: location
  loc2 :: location
  saving :: real

text \<open>
  What a run can throw. \<^verbatim>\<open>distances[a][b]\<close> throws a \<^verbatim>\<open>TypeError\<close> when
  \<^verbatim>\<open>distances[a]\<close> is \<^verbatim>\<open>undefined\<close>. When the row is there and the entry is
  not, JavaScript goes on with \<^verbatim>\<open>undefined\<close>, which the arithmetic turns into NaN;
  the reals have no such value, so the model stops there with \<open>UndefinedDistance\<close>.
  Theorem \<open>clarkeWrightAlgorithm_no_UndefinedDistance\<close> shows that no run gets there.
\<close>

datatype js_error = TypeError | UndefinedDistance

section \<open>Binary64 arithmetic on demands\<close>

text \<open>
  The nearest double of a real, ties to the even significand: a double is an integer multiple
  \<open>m * 2 ^ e\<close> with \<open>e\<close> the exponent of the last place of its binade, at least
  \<open>-1074\<close> (the subnormal numbers), and 53 bits of significand. Overflow to an infinity is
  not modelled: a sum beyond the largest double exceeds every capacity that is a double, as
  the infinity does, so the comparisons of the algorithm come out as in the program.
\<close>

definition pow2 :: "int \<Rightarrow> real" where
  "pow2 e = (if 0 \<le> e then 2 ^ nat e else 1 / 2 ^ nat (- e))"

definition roundHalfEven :: "real \<Rightarrow> int" where
  "roundHalfEven y =
     (let f = \<lfloor>y\<rfloor> in
      if y - of_int f < 1 / 2 then f
      else if 1 / 2 < y - of_int f then f + 1
      else if even f then f else f + 1)"

definition ulpExponent :: "real \<Rightarrow> int" where
  "ulpExponent x = max (\<lfloor>log 2 \<bar>x\<bar>\<rfloor> - 52) (- 1074)"

definition round64 :: "real \<Rightarrow> real" where
  "round64 x =
     (if x = 0 then 0
      else of_int (roundHalfEven (x / pow2 (ulpExponent x))) * pow2 (ulpExponent x))"

text \<open>The operators \<^verbatim>\<open>+\<close> and \<^verbatim>\<open>-\<close> on two doubles.\<close>

definition js_add :: "real \<Rightarrow> real \<Rightarrow> real" where
  "js_add x y = round64 (x + y)"

definition js_sub :: "real \<Rightarrow> real \<Rightarrow> real" where
  "js_sub x y = round64 (x - y)"

section \<open>Distance model\<close>

text \<open>
  \<^verbatim>\<open>Math.atan2(y, x)\<close>, on the reals: the angle of the point \<open>(x, y)\<close> in
  \<open>(-\<pi>, \<pi>]\<close>, and \<open>0\<close> at the origin.
\<close>

definition atan2 :: "real \<Rightarrow> real \<Rightarrow> real" where
  "atan2 y x =
     (if 0 < x then arctan (y / x)
      else if x < 0 then (if 0 \<le> y then arctan (y / x) + pi else arctan (y / x) - pi)
      else if 0 < y then pi / 2
      else if y < 0 then - pi / 2
      else 0)"

text \<open>
  The formula of \<^verbatim>\<open>calculateDistance\<close> on exact reals. The program evaluates it in
  binary64: there \<^verbatim>\<open>a\<close> can round to a value above 1, as it does for the points
  \<open>(8, 0)\<close> and \<open>(-8, 180)\<close>, and \<^verbatim>\<open>Math.sqrt(1-a)\<close> and the distance are then
  NaN, which this definition does not show.
\<close>

definition calculateDistance :: "real \<Rightarrow> real \<Rightarrow> real \<Rightarrow> real \<Rightarrow> real" where
  "calculateDistance lat1 lon1 lat2 lon2 =
     (let R = 6371;
          dLat = (lat2 - lat1) * pi / 180;
          dLon = (lon2 - lon1) * pi / 180;
          a = sin (dLat / 2) * sin (dLat / 2) +
              cos (lat1 * pi / 180) * cos (lat2 * pi / 180) *
              sin (dLon / 2) * sin (dLon / 2);
          c = 2 * atan2 (sqrt a) (sqrt (1 - a));
          distance = R * c
      in distance)"

text \<open>
  The table \<^verbatim>\<open>distances\<close>: an object of objects, filled by two nested
  \<^verbatim>\<open>forEach\<close> loops; a later location with the same \<^verbatim>\<open>_id\<close> overwrites
  the entry of an earlier one.
\<close>

type_synonym distance_table = "object_id \<rightharpoonup> (object_id \<rightharpoonup> real)"

definition distances_row :: "location list \<Rightarrow> location \<Rightarrow> (object_id \<rightharpoonup> real)" where
  "distances_row locations l1 =
     fold (\<lambda>l2 row. row(loc_id l2 \<mapsto>
             calculateDistance (loc_latitude l1) (loc_longitude l1)
                               (loc_latitude l2) (loc_longitude l2)))
          locations Map.empty"

definition distances :: "location list \<Rightarrow> distance_table" where
  "distances locations =
     fold (\<lambda>l1 d. d(loc_id l1 \<mapsto> distances_row locations l1)) locations Map.empty"

text \<open>The read \<^verbatim>\<open>distances[a][b]\<close>.\<close>

definition dist :: "distance_table \<Rightarrow> object_id \<Rightarrow> object_id \<Rightarrow> js_error + real" where
  "dist d a b =
     (case d a of
        None \<Rightarrow> Inl TypeError
      | Some row \<Rightarrow> (case row b of None \<Rightarrow> Inl UndefinedDistance | Some x \<Rightarrow> Inr x))"

section \<open>Savings calculator\<close>

text \<open>
  The inner \<^verbatim>\<open>locations.forEach(loc2 => ...)\<close>: \<open>acc\<close> is the array
  \<^verbatim>\<open>savings\<close> so far.
\<close>

fun savings_inner ::
  "distance_table \<Rightarrow> location \<Rightarrow> location \<Rightarrow> saving_entry list \<Rightarrow> location list
     \<Rightarrow> js_error + saving_entry list" where
  "savings_inner d depot l1 acc [] = Inr acc"
| "savings_inner d depot l1 acc (l2 # rest) =
     (if loc_id l2 = loc_id depot \<or> loc_id l1 = loc_id l2 then savings_inner d depot l1 acc rest
      else
        (case dist d (loc_id depot) (loc_id l1) of
           Inl e \<Rightarrow> Inl e
         | Inr a \<Rightarrow>
             (case dist d (loc_id depot) (loc_id l2) of
                Inl e \<Rightarrow> Inl e
              | Inr b \<Rightarrow>
                  (case dist d (loc_id l1) (loc_id l2) of
                     Inl e \<Rightarrow> Inl e
                   | Inr c \<Rightarrow>
                       savings_inner d depot l1
                         (acc @ [\<lparr>loc1 = l1, loc2 = l2, saving = a + b - c\<rparr>]) rest))))"

text \<open>The outer \<^verbatim>\<open>locations.forEach(loc1 => ...)\<close>, over the list \<open>todo\<close>.\<close>

fun savings_outer ::
  "distance_table \<Rightarrow> location \<Rightarrow> location list \<Rightarrow> saving_entry list \<Rightarrow> location list
     \<Rightarrow> js_error + saving_entry list" where
  "savings_outer d depot locations acc [] = Inr acc"
| "savings_outer d depot locations acc (l1 # todo) =
     (if loc_id l1 = loc_id depot then savings_outer d depot locations acc todo
      else
        (case savings_inner d depot l1 acc locations of
           Inl e \<Rightarrow> Inl e
         | Inr acc' \<Rightarrow> savings_outer d depot locations acc' todo))"

definition calculateSavings ::
  "distance_table \<Rightarrow> location list \<Rightarrow> location \<Rightarrow> js_error + saving_entry list" where
  "calculateSavings d locations depot = savings_outer d depot locations [] locations"

text \<open>
  \<^verbatim>\<open>savings.sort((a, b) => b.saving - a.saving)\<close>: the sort of an array is stable,
  so it is the stable insertion sort on the key \<open>- saving\<close>. This is the sort of
  savings that are numbers; for a NaN saving of the program the comparator returns NaN and the
  order of the array is left to the implementation, which this definition does not show.
\<close>

definition sortSavings :: "saving_entry list \<Rightarrow> saving_entry list" where
  "sortSavings savings = sort_key (\<lambda>s. - saving s) savings"

section \<open>Fleet allocator\<close>

text \<open>
  \<^verbatim>\<open>vehicles.forEach(vehicle => { for (...) availableVehicles.push({...}) })\<close>: each
  vehicle type gives \<open>count\<close> instances, in the order of the types, each with its
  remaining capacity at the capacity of the type.
\<close>

definition newInstance :: "vehicle \<Rightarrow> vehicle_instance" where
  "newInstance v = vehicle.extend v (vehicle_instance.fields (capacity v))"

definition expandVehicles :: "vehicle list \<Rightarrow> vehicle_instance list" where
  "expandVehicles vehicles = concat (map (\<lambda>v. replicate (count v) (newInstance v)) vehicles)"

section \<open>Route builder\<close>

text \<open>
  The stop object that the route builder makes of a location, the depot or a stop to visit,
  with its \<^verbatim>\<open>order\<close>.
\<close>

definition depotStop :: "location \<Rightarrow> nat \<Rightarrow> stop" where
  "depotStop l k =
     \<lparr>locationId = loc_id l, locationName = loc_name l, latitude = loc_latitude l,
      longitude = loc_longitude l, demand = loc_demand l, order = k\<rparr>"

record build_state =
  bs_routes :: "route list"
  bs_vehicles :: "vehicle_instance list"
  bs_index :: nat

text \<open>
  The body of \<^verbatim>\<open>nonDepotLocations.forEach(location => ...)\<close>; \<open>bs_index\<close> is
  \<^verbatim>\<open>vehicleIndex\<close>.
\<close>

definition build_step ::
  "distance_table \<Rightarrow> location \<Rightarrow> build_state \<Rightarrow> location \<Rightarrow> js_error + build_state" where
  "build_step d depot st l =
     (if bs_index st \<ge> length (bs_vehicles st) then Inr st
      else
        let v = bs_vehicles st ! bs_index st in
        if loc_demand l > remainingCapacity v then Inr st
        else
          (case dist d (loc_id depot) (loc_id l) of
             Inl e \<Rightarrow> Inl e
           | Inr x \<Rightarrow>
               Inr \<lparr>bs_routes = bs_routes st @
                      [\<lparr>vehicleId = veh_id v, vehicleName = veh_name v,
                        stops = [depotStop depot 0, depotStop l 1, depotStop depot 2],
                        totalDistance = x * 2, totalCapacity = loc_demand l\<rparr>],
                    bs_vehicles = (bs_vehicles st)
                      [bs_index st := v\<lparr>remainingCapacity := js_sub (remainingCapacity v) (loc_demand l)\<rparr>],
                    bs_index = bs_index st + 1\<rparr>))"

fun build_routes ::
  "distance_table \<Rightarrow> location \<Rightarrow> build_state \<Rightarrow> location list \<Rightarrow> js_error + build_state" where
  "build_routes d depot st [] = Inr st"
| "build_routes d depot st (l # ls) =
     (case build_step d depot st l of
        Inl e \<Rightarrow> Inl e
      | Inr st' \<Rightarrow> build_routes d depot st' ls)"

section \<open>Route merger\<close>

text \<open>
  \<^verbatim>\<open>route.stops.some(stop => stop.locationId.toString() === loc._id.toString())\<close>.
\<close>

definition containsLoc :: "route \<Rightarrow> object_id \<Rightarrow> bool" where
  "containsLoc r l = list_ex (\<lambda>s. locationId s = l) (stops r)"

text \<open>
  The loop \<^verbatim>\<open>for (let i = 0; i < routes.length; i++)\<close> that looks for the two routes,
  from index \<open>i\<close> on, with its \<^verbatim>\<open>break\<close>.
\<close>

fun find_routes ::
  "route list \<Rightarrow> nat \<Rightarrow> object_id \<Rightarrow> object_id \<Rightarrow> (nat \<times> route) option \<Rightarrow> (nat \<times> route) option
     \<Rightarrow> (nat \<times> route) option \<times> (nat \<times> route) option" where
  "find_routes [] i l1 l2 route1 route2 = (route1, route2)"
| "find_routes (r # rs) i l1 l2 route1 route2 =
     (let route1' = (if containsLoc r l1 \<and> route1 = None then Some (i, r) else route1);
          route2' = (if containsLoc r l2 \<and> route2 = None then Some (i, r) else route2)
      in if route1' \<noteq> None \<and> route2' \<noteq> None then (route1', route2')
         else find_routes rs (Suc i) l1 l2 route1' route2')"

text \<open>
  \<^verbatim>\<open>forEach(stop => newStops.push({ ...stop, order: order++ }))\<close>: the new array and
  the counter after it.
\<close>

fun push_stops :: "stop list \<Rightarrow> nat \<Rightarrow> stop list \<Rightarrow> stop list \<times> nat" where
  "push_stops newStops k [] = (newStops, k)"
| "push_stops newStops k (s # ss) = push_stops (newStops @ [s\<lparr>order := k\<rparr>]) (Suc k) ss"

text \<open>\<^verbatim>\<open>stops.slice(1, -1)\<close>.\<close>

definition slice_inner :: "'a list \<Rightarrow> 'a list" where
  "slice_inner xs = butlast (tl xs)"

text \<open>
  The loop that adds \<^verbatim>\<open>distances[from.locationId][to.locationId]\<close> over the
  consecutive stops.
\<close>

fun path_distance :: "distance_table \<Rightarrow> stop list \<Rightarrow> real \<Rightarrow> js_error + real" where
  "path_distance d (from # to # rest) td =
     (case dist d (locationId from) (locationId to) of
        Inl e \<Rightarrow> Inl e
      | Inr x \<Rightarrow> path_distance d (to # rest) (td + x))"
| "path_distance d ss td = Inr td"

text \<open>
  \<^verbatim>\<open>availableVehicles.find(v => v._id.toString() === id)\<close>, as the index of the
  instance found: the assignment to \<^verbatim>\<open>vehicle.remainingCapacity\<close> changes that
  element of the array.
\<close>

fun find_vehicle :: "vehicle_instance list \<Rightarrow> object_id \<Rightarrow> nat \<Rightarrow> nat option" where
  "find_vehicle [] vid i = None"
| "find_vehicle (v # vs) vid i = (if veh_id v = vid then Some i else find_vehicle vs vid (Suc i))"

text \<open>
  The two \<^verbatim>\<open>splice\<close> calls: remove the element at the larger index, then replace the
  one at the smaller index.
\<close>

definition splice_merged :: "route list \<Rightarrow> nat \<Rightarrow> nat \<Rightarrow> route \<Rightarrow> route list" where
  "splice_merged routes i1 i2 merged =
     (let removed = take (max i1 i2) routes @ drop (Suc (max i1 i2)) routes
      in take (min i1 i2) removed @ merged # drop (Suc (min i1 i2)) removed)"

text \<open>
  The array \<^verbatim>\<open>newStops\<close> of a merge: a copy of \<^verbatim>\<open>route1.route.stops[0]\<close>,
  the inner stops of the first route, those of the second, and a second copy of
  \<^verbatim>\<open>route1.route.stops[0]\<close>, numbered by the counter \<^verbatim>\<open>order\<close>.
\<close>

definition mergedStops :: "stop \<Rightarrow> route \<Rightarrow> route \<Rightarrow> stop list" where
  "mergedStops s0 r1 r2 =
     (let p1 = push_stops [s0\<lparr>order := 0\<rparr>] 1 (slice_inner (stops r1));
          p2 = push_stops (fst p1) (snd p1) (slice_inner (stops r2))
      in fst p2 @ [s0\<lparr>order := snd p2\<rparr>])"

text \<open>
  The body of \<^verbatim>\<open>savings.forEach(saving => ...)\<close>, on the pair of the array
  \<^verbatim>\<open>routes\<close> and the array \<^verbatim>\<open>availableVehicles\<close>. A route with no stop at
  all has \<^verbatim>\<open>stops[0]\<close> undefined; the two copies are then \<^verbatim>\<open>{order: ..}\<close>
  and the distance loop throws at \<^verbatim>\<open>distances[undefined][..]\<close>. The route found
  for \<^verbatim>\<open>loc1\<close> has the stop that matched, so a run never takes this branch.
\<close>

definition merge_step ::
  "distance_table \<Rightarrow> route list \<times> vehicle_instance list \<Rightarrow> saving_entry
     \<Rightarrow> js_error + route list \<times> vehicle_instance list" where
  "merge_step d st sv =
     (let routes = fst st; availableVehicles = snd st in
      case find_routes routes 0 (loc_id (loc1 sv)) (loc_id (loc2 sv)) None None of
        (None, _) \<Rightarrow> Inr st
      | (Some _, None) \<Rightarrow> Inr st
      | (Some (i1, r1), Some (i2, r2)) \<Rightarrow>
          if i1 = i2 then Inr st
          else
            let totalDemand = js_add (totalCapacity r1) (totalCapacity r2) in
            (case find_vehicle availableVehicles (vehicleId r1) 0 of
               None \<Rightarrow> Inr st
             | Some vi \<Rightarrow>
                 let v = availableVehicles ! vi in
                 if totalDemand > capacity v then Inr st
                 else
                   (case stops r1 of
                      [] \<Rightarrow> Inl TypeError
                    | s0 # _ \<Rightarrow>
                        let newStops = mergedStops s0 r1 r2 in
                        (case path_distance d newStops 0 of
                           Inl e \<Rightarrow> Inl e
                         | Inr td \<Rightarrow>
                             Inr (splice_merged routes i1 i2
                                    \<lparr>vehicleId = vehicleId r1, vehicleName = vehicleName r1,
                                     stops = newStops, totalDistance = td,
                                     totalCapacity = totalDemand\<rparr>,
                                  availableVehicles
                                    [vi := v\<lparr>remainingCapacity := js_sub (capacity v) totalDemand\<rparr>])))))"

fun merge_routes ::
  "distance_table \<Rightarrow> route list \<times> vehicle_instance list \<Rightarrow> saving_entry list
     \<Rightarrow> js_error + route list \<times> vehicle_instance list" where
  "merge_routes d st [] = Inr st"
| "merge_routes d st (sv # svs) =
     (case merge_step d st sv of
        Inl e \<Rightarrow> Inl e
      | Inr st' \<Rightarrow> merge_routes d st' svs)"

section \<open>The algorithm\<close>

text \<open>
  \<^verbatim>\<open>clarkeWrightAlgorithm(vehicles, locations, depot)\<close>: the table of distances, the
  savings and their sort, the pool of vehicle instances, the initial routes over the locations
  that are not the depot, and the merges in the order of the sorted savings. It returns the
  array \<^verbatim>\<open>routes\<close>, or throws.
\<close>

definition nonDepotLocations :: "location list \<Rightarrow> location \<Rightarrow> location list" where
  "nonDepotLocations locations depot = filter (\<lambda>l. loc_id l \<noteq> loc_id depot) locations"

definition initialState :: "vehicle list \<Rightarrow> build_state" where
  "initialState vehicles =
     \<lparr>bs_routes = [], bs_vehicles = expandVehicles vehicles, bs_index = 0\<rparr>"

definition clarkeWrightAlgorithm ::
  "vehicle list \<Rightarrow> location list \<Rightarrow> location \<Rightarrow> js_error + route list" where
  "clarkeWrightAlgorithm vehicles locations depot =
     (let d = distances locations in
      case calculateSavings d locations depot of
        Inl e \<Rightarrow> Inl e
      | Inr savings \<Rightarrow>
          (case build_routes d depot (initialState vehicles) (nonDepotLocations locations depot) of
             Inl e \<Rightarrow> Inl e
           | Inr st \<Rightarrow>
               (case merge_routes d (bs_routes st, bs_vehicles st) (sortSavings savings) of
                  Inl e \<Rightarrow> Inl e
                | Inr res \<Rightarrow> Inr (fst res))))"

section \<open>The depot of a request\<close>

text \<open>
  \<^verbatim>\<open>createOptimization\<close> answers 400 when there is no location, and otherwise calls the
  algorithm with \<^verbatim>\<open>locations.find(loc => loc.isDepot) || locations[0]\<close> as the depot.
\<close>

definition selectDepot :: "location list \<Rightarrow> location option" where
  "selectDepot locations =
     (case find isDepot locations of
        Some l \<Rightarrow> Some l
      | None \<Rightarrow> (case locations of [] \<Rightarrow> None | l # _ \<Rightarrow> Some l))"

section \<open>Notions used in the statements\<close>

text \<open>The distance of the specification between two locations: that of their coordinates.\<close>

definition distance :: "location \<Rightarrow> location \<Rightarrow> real" where
  "distance a b =
     calculateDistance (loc_latitude a) (loc_longitude a) (loc_latitude b) (loc_longitude b)"


text \<open>
  The route builder assigns a stop a route when a vehicle instance is left at the cursor and
  the demand of the stop is at most its remaining capacity.
\<close>

definition assignable :: "build_state \<Rightarrow> location \<Rightarrow> bool" where
  "assignable st l =
     (bs_index st < length (bs_vehicles st) \<and>
      loc_demand l \<le> remainingCapacity (bs_vehicles st ! bs_index st))"

text \<open>
  A route starts with the depot, numbered 0, ends with the depot, numbered last, and has no
  stop with the identifier of the depot in between.
\<close>

definition depotOnlyAtEnds :: "location \<Rightarrow> route \<Rightarrow> bool" where
  "depotOnlyAtEnds depot r =
     (2 \<le> length (stops r) \<and> hd (stops r) = depotStop depot 0 \<and>
      last (stops r) = depotStop depot (length (stops r) - 1) \<and>
      list_all (\<lambda>s. locationId s \<noteq> loc_id depot) (slice_inner (stops r)))"

text \<open>
  The cumulative demand of a route: the sum of the demands of its inner stops, the exact one,
  and the one that \<^verbatim>\<open>reduce((s, q) => s + q, 0)\<close> computes in binary64 in the order of
  the stops.
\<close>

definition jsSum :: "real list \<Rightarrow> real" where
  "jsSum qs = foldl js_add 0 qs"


definition cumulativeDemand :: "route \<Rightarrow> real" where
  "cumulativeDemand r = sum_list (map demand (slice_inner (stops r)))"

section \<open>The savings list as a comprehension\<close>

text \<open>
  For the table read as a function \<open>g\<close>: the entry of a pair, the partners of a first
  stop, and the entries of all pairs in the order of the two loops.
\<close>

definition entry :: "(location \<Rightarrow> location \<Rightarrow> real) \<Rightarrow> location \<Rightarrow> location \<Rightarrow> location \<Rightarrow> saving_entry" where
  "entry g depot l1 l2 = \<lparr>loc1 = l1, loc2 = l2, saving = g depot l1 + g depot l2 - g l1 l2\<rparr>"

definition partners :: "location \<Rightarrow> location \<Rightarrow> location list \<Rightarrow> location list" where
  "partners depot l1 ls = filter (\<lambda>l2. loc_id l2 \<noteq> loc_id depot \<and> loc_id l1 \<noteq> loc_id l2) ls"

definition allSavings :: "(location \<Rightarrow> location \<Rightarrow> real) \<Rightarrow> location list \<Rightarrow> location \<Rightarrow> saving_entry list" where
  "allSavings g ls depot =
     concat (map (\<lambda>l1. map (entry g depot l1) (partners depot l1 ls))
                 (filter (\<lambda>l1. loc_id l1 \<noteq> loc_id depot) ls))"

section \<open>Invariants of a run\<close>

text \<open>
  The instances of the pool keep their identifiers and capacities; only
  \<open>remainingCapacity\<close> changes.
\<close>

definition same_fleet :: "vehicle_instance list \<Rightarrow> vehicle_instance list \<Rightarrow> bool" where
  "same_fleet vs V = (map (\<lambda>v. (veh_id v, capacity v)) vs = map (\<lambda>v. (veh_id v, capacity v)) V)"

text \<open>The stops that \<open>push_stops\<close> appends: the given ones, numbered from \<open>k\<close> on.\<close>

fun renumber :: "nat \<Rightarrow> stop list \<Rightarrow> stop list" where
  "renumber k [] = []"
| "renumber k (s # ss) = s\<lparr>order := k\<rparr> # renumber (Suc k) ss"

text \<open>
  An inner stop of a route is the stop of a non-depot location whose demand fits some vehicle
  instance of the pool.
\<close>

definition routable :: "location \<Rightarrow> location list \<Rightarrow> vehicle_instance list \<Rightarrow> stop \<Rightarrow> bool" where
  "routable depot ls V m =
     (\<exists>l\<in>set ls. loc_id l \<noteq> loc_id depot \<and> locationId m = loc_id l \<and> demand m = loc_demand l \<and>
        (\<exists>v\<in>set V. loc_demand l \<le> capacity v))"

text \<open>
  The demand that the code accumulates for a route: the demand of the stop for a singleton
  route, and for a merged route the binary64 sum of what was accumulated for the two routes.
\<close>

inductive accumulated :: "real list \<Rightarrow> real \<Rightarrow> bool" where
  one: "accumulated [q] q"
| add: "accumulated qs a \<Longrightarrow> accumulated ps b \<Longrightarrow> accumulated (qs @ ps) (js_add a b)"

text \<open>
  A route is the depot, inner stops as above, and the depot again; its \<open>totalCapacity\<close> is
  the demand accumulated over the inner stops and fits an instance of the pool that has the
  identifier of the route's vehicle.
\<close>

definition route_inv :: "location \<Rightarrow> location list \<Rightarrow> vehicle_instance list \<Rightarrow> route \<Rightarrow> bool" where
  "route_inv depot ls V r =
     (\<exists>mids. stops r = depotStop depot 0 # mids @ [depotStop depot (Suc (length mids))] \<and>
        (\<forall>m\<in>set mids. routable depot ls V m) \<and>
        accumulated (map demand mids) (totalCapacity r) \<and>
        (\<exists>v\<in>set V. veh_id v = vehicleId r \<and> totalCapacity r \<le> capacity v))"

text \<open>
  The state of the route builder: there are as many routes as the cursor has passed
  instances, and the instances from the cursor on are untouched.
\<close>

definition build_inv :: "location \<Rightarrow> location list \<Rightarrow> vehicle_instance list \<Rightarrow> build_state \<Rightarrow> bool" where
  "build_inv depot ls V st =
     (same_fleet (bs_vehicles st) V \<and> length (bs_routes st) = bs_index st \<and>
      bs_index st \<le> length V \<and>
      (\<forall>i. bs_index st \<le> i \<and> i < length V \<longrightarrow>
           remainingCapacity (bs_vehicles st ! i) = capacity (bs_vehicles st ! i)) \<and>
      (\<forall>r\<in>set (bs_routes st). route_inv depot ls V r))"

text \<open>The state of the route merger.\<close>

definition merge_inv ::
  "location \<Rightarrow> location list \<Rightarrow> vehicle_instance list \<Rightarrow> route list \<times> vehicle_instance list \<Rightarrow> bool" where
  "merge_inv depot ls V st =
     (same_fleet (snd st) V \<and> (\<forall>r\<in>set (fst st). route_inv depot ls V r))"

text \<open>The route that a step of the builder adds, and the route that a merge puts in.\<close>

definition singletonRoute :: "location \<Rightarrow> vehicle_instance \<Rightarrow> location \<Rightarrow> real \<Rightarrow> route" where
  "singletonRoute depot v l x =
     \<lparr>vehicleId = veh_id v, vehicleName = veh_name v,
      stops = [depotStop depot 0, depotStop l 1, depotStop depot 2],
      totalDistance = x * 2, totalCapacity = loc_demand l\<rparr>"

definition mergedRoute :: "route \<Rightarrow> route \<Rightarrow> stop \<Rightarrow> real \<Rightarrow> route" where
  "mergedRoute r1 r2 s0 td =
     \<lparr>vehicleId = vehicleId r1, vehicleName = vehicleName r1, stops = mergedStops s0 r1 r2,
      totalDistance = td, totalCapacity = js_add (totalCapacity r1) (totalCapacity r2)\<rparr>"

section \<open>The scenarios of the specification\<close>

text \<open>
  A depot at \<open>(0, 0)\<close> and two stops at \<open>(0, 1)\<close> and \<open>(0, 2)\<close>, with their demands
  as parameters, and one vehicle type, with its capacity and count as parameters.
\<close>

definition ex_depot :: location where
  "ex_depot = \<lparr>loc_id = ''d'', loc_name = ''Depot'', loc_latitude = 0, loc_longitude = 0,
     loc_demand = 0, isDepot = True\<rparr>"

definition ex_stopA :: "real \<Rightarrow> location" where
  "ex_stopA q = \<lparr>loc_id = ''a'', loc_name = ''A'', loc_latitude = 0, loc_longitude = 1,
     loc_demand = q, isDepot = False\<rparr>"

definition ex_stopB :: "real \<Rightarrow> location" where
  "ex_stopB q = \<lparr>loc_id = ''b'', loc_name = ''B'', loc_latitude = 0, loc_longitude = 2,
     loc_demand = q, isDepot = False\<rparr>"

definition ex_locations :: "real \<Rightarrow> real \<Rightarrow> location list" where
  "ex_locations qa qb = [ex_depot, ex_stopA qa, ex_stopB qb]"

definition ex_vehicle :: "real \<Rightarrow> nat \<Rightarrow> vehicle" where
  "ex_vehicle c n = \<lparr>veh_id = ''v'', veh_name = ''Van'', capacity = c, count = n\<rparr>"

text \<open>The savings list of the scenarios.\<close>

definition ex_savings :: "real \<Rightarrow> real \<Rightarrow> saving_entry list" where
  "ex_savings qa qb =
     [\<lparr>loc1 = ex_stopA qa, loc2 = ex_stopB qb,
       saving = calculateDistance 0 0 0 1 + calculateDistance 0 0 0 2 - calculateDistance 0 1 0 2\<rparr>,
      \<lparr>loc1 = ex_stopB qb, loc2 = ex_stopA qa,
       saving = calculateDistance 0 0 0 2 + calculateDistance 0 0 0 1 - calculateDistance 0 2 0 1\<rparr>]"

text \<open>
  The routes of the scenarios: the singleton route of each stop, and the two merged.
\<close>

definition ex_routeA :: route where
  "ex_routeA =
     \<lparr>vehicleId = ''v'', vehicleName = ''Van'',
      stops = [depotStop ex_depot 0, depotStop (ex_stopA 5) 1, depotStop ex_depot 2],
      totalDistance = calculateDistance 0 0 0 1 * 2, totalCapacity = 5\<rparr>"

definition ex_routeB :: route where
  "ex_routeB =
     \<lparr>vehicleId = ''v'', vehicleName = ''Van'',
      stops = [depotStop ex_depot 0, depotStop (ex_stopB 5) 1, depotStop ex_depot 2],
      totalDistance = calculateDistance 0 0 0 2 * 2, totalCapacity = 5\<rparr>"

definition ex_routeAB :: route where
  "ex_routeAB =
     \<lparr>vehicleId = ''v'', vehicleName = ''Van'',
      stops = [depotStop ex_depot 0, depotStop (ex_stopA 5) 1, depotStop (ex_stopB 5) 2,
               depotStop ex_depot 3],
      totalDistance = calculateDistance 0 0 0 1 + calculateDistance 0 1 0 2 +
                      calculateDistance 0 2 0 0,
      totalCapacity = 10\<rparr>"

text \<open>
  A scenario where the rounding decides. The doubles of the literals 0.1, 0.2, 0.3 and 0.6;
  a stop of demand 0.1 at the place of the depot and stops of demand 0.2 and 0.3 at one place
  one degree of longitude away; one vehicle type of capacity 0.6 and count 3; the route that
  the run returns, and the states it goes through.
\<close>

definition dbl_0_1 :: real where "dbl_0_1 = round64 (1 / 10)"

definition dbl_0_2 :: real where "dbl_0_2 = round64 (2 / 10)"

definition dbl_0_3 :: real where "dbl_0_3 = round64 (3 / 10)"

definition dbl_0_6 :: real where "dbl_0_6 = round64 (6 / 10)"

definition fl_stopA :: location where
  "fl_stopA = \<lparr>loc_id = ''a'', loc_name = ''A'', loc_latitude = 0, loc_longitude = 0,
     loc_demand = dbl_0_1, isDepot = False\<rparr>"

definition fl_stopB :: location where
  "fl_stopB = \<lparr>loc_id = ''b'', loc_name = ''B'', loc_latitude = 0, loc_longitude = 1,
     loc_demand = dbl_0_2, isDepot = False\<rparr>"

definition fl_stopC :: location where
  "fl_stopC = \<lparr>loc_id = ''c'', loc_name = ''C'', loc_latitude = 0, loc_longitude = 1,
     loc_demand = dbl_0_3, isDepot = False\<rparr>"

definition fl_locations :: "location list" where
  "fl_locations = [ex_depot, fl_stopA, fl_stopB, fl_stopC]"

definition fl_vehicle :: vehicle where
  "fl_vehicle = \<lparr>veh_id = ''v'', veh_name = ''Van'', capacity = dbl_0_6, count = 3\<rparr>"

definition fl_far :: real where
  "fl_far = calculateDistance 0 0 0 1"

definition fl_singleton :: "location \<Rightarrow> real \<Rightarrow> route" where
  "fl_singleton l x =
     \<lparr>vehicleId = ''v'', vehicleName = ''Van'',
      stops = [depotStop ex_depot 0, depotStop l 1, depotStop ex_depot 2],
      totalDistance = x * 2, totalCapacity = loc_demand l\<rparr>"

definition fl_used :: "real \<Rightarrow> vehicle_instance" where
  "fl_used q = (newInstance fl_vehicle)\<lparr>remainingCapacity := js_sub dbl_0_6 q\<rparr>"

definition fl_route :: route where
  "fl_route =
     \<lparr>vehicleId = ''v'', vehicleName = ''Van'',
      stops = [depotStop ex_depot 0, depotStop fl_stopA 1, depotStop fl_stopB 2,
               depotStop fl_stopC 3, depotStop ex_depot 4],
      totalDistance = calculateDistance 0 0 0 1 + calculateDistance 0 0 0 1,
      totalCapacity = dbl_0_6\<rparr>"

section \<open>The formula of the distance on exact reals\<close>

text \<open>
  On exact reals the formula is symmetric and gives 0 for a point and itself: the squared sine
  of half the difference does not see the sign of the difference, and the product of the
  cosines commutes. These are facts of the formula, used to evaluate the scenarios; they say
  nothing of the NaN that the program returns in binary64 for points that are nearly
  antipodal.
\<close>

lemma sin_half_swap:
  "sin ((a - c) * pi / 180 / 2) * sin ((a - c) * pi / 180 / 2) =
   sin ((c - a) * pi / 180 / 2) * sin ((c - a) * pi / 180 / 2)" for a c :: real
proof -
  have "(a - c) * pi / 180 / 2 = - ((c - a) * pi / 180 / 2)"
    by (simp add: field_simps)
  then have "sin ((a - c) * pi / 180 / 2) = - sin ((c - a) * pi / 180 / 2)"
    by (metis sin_minus)
  then show ?thesis by simp
qed

lemma calculateDistance_sym: "calculateDistance a b c d = calculateDistance c d a b"
proof -
  have "sin ((c - a) * pi / 180 / 2) * sin ((c - a) * pi / 180 / 2) +
        cos (a * pi / 180) * cos (c * pi / 180) *
        sin ((d - b) * pi / 180 / 2) * sin ((d - b) * pi / 180 / 2) =
        sin ((a - c) * pi / 180 / 2) * sin ((a - c) * pi / 180 / 2) +
        cos (c * pi / 180) * cos (a * pi / 180) *
        sin ((b - d) * pi / 180 / 2) * sin ((b - d) * pi / 180 / 2)"
    using sin_half_swap [of a c] sin_half_swap [of b d] by (simp add: mult.assoc mult.commute)
  then show ?thesis
    unfolding calculateDistance_def Let_def by simp
qed

lemma calculateDistance_self: "calculateDistance a b a b = 0"
  by (simp add: calculateDistance_def atan2_def)

section \<open>The distance table\<close>

text \<open>
  The table has a row for the identifier of every location, and every row has an entry
  for the identifier of every location; with distinct identifiers the entry of two locations
  is the distance of their coordinates.
\<close>

lemma fold_upd_dom:
  "dom (fold (\<lambda>l m. m(f l \<mapsto> g l)) ls m0) = dom m0 \<union> f ` set ls"
  by (induction ls arbitrary: m0) auto

lemma fold_upd_ran:
  "fold (\<lambda>l m. m(f l \<mapsto> g l)) ls m0 a = Some v \<Longrightarrow> m0 a = Some v \<or> v \<in> g ` set ls"
  by (induction ls arbitrary: m0) (fastforce split: if_splits)+



lemma distances_row_dom: "dom (distances_row ls l1) = loc_id ` set ls"
  by (simp add: distances_row_def fold_upd_dom)

lemma distances_dom: "dom (distances ls) = loc_id ` set ls"
  by (simp add: distances_def fold_upd_dom)

lemma distances_rows:
  assumes "distances ls a = Some row"
  shows "dom row = loc_id ` set ls"
proof -
  from assms have "row \<in> distances_row ls ` set ls"
    unfolding distances_def by (auto dest: fold_upd_ran)
  then obtain l1 where "row = distances_row ls l1" by blast
  then show ?thesis by (simp add: distances_row_dom)
qed

text \<open>The three outcomes of a read of the table.\<close>

lemma dist_hit:
  assumes "a \<in> loc_id ` set ls" and "b \<in> loc_id ` set ls"
  shows "\<exists>x. dist (distances ls) a b = Inr x"
proof -
  from assms(1) obtain row where row: "distances ls a = Some row"
    using distances_dom [of ls] by blast
  with assms(2) obtain x where "row b = Some x"
    using distances_rows [OF row] by blast
  with row show ?thesis by (simp add: dist_def)
qed

lemma dist_no_row: "a \<notin> loc_id ` set ls \<Longrightarrow> dist (distances ls) a b = Inl TypeError"
  using distances_dom [of ls] by (auto simp: dist_def split: option.splits)


section \<open>The savings list\<close>

text \<open>
  When the reads of the table succeed, the two loops compute the comprehension
  \<open>allSavings\<close>; they do when the depot is one of the locations.
\<close>

lemma savings_inner_eq:
  assumes "dist d (loc_id depot) (loc_id l1) = Inr (g depot l1)"
    and "\<And>l2. l2 \<in> set rest \<Longrightarrow> dist d (loc_id depot) (loc_id l2) = Inr (g depot l2)"
    and "\<And>l2. l2 \<in> set rest \<Longrightarrow> dist d (loc_id l1) (loc_id l2) = Inr (g l1 l2)"
  shows "savings_inner d depot l1 acc rest =
           Inr (acc @ map (entry g depot l1) (partners depot l1 rest))"
  using assms(2,3)
proof (induction rest arbitrary: acc)
  case Nil
  show ?case by (simp add: partners_def)
next
  case (Cons l2 rest)
  have IH: "savings_inner d depot l1 acc' rest =
           Inr (acc' @ map (entry g depot l1) (partners depot l1 rest))" for acc'
    using Cons.IH Cons.prems by simp
  show ?case
    using assms(1) Cons.prems(1) [of l2] Cons.prems(2) [of l2]
    by (simp add: IH partners_def entry_def)
qed

lemma savings_outer_eq:
  assumes "\<And>x y. x \<in> set (depot # ls) \<Longrightarrow> y \<in> set ls \<Longrightarrow>
             dist d (loc_id x) (loc_id y) = Inr (g x y)"
    and "set todo \<subseteq> set ls"
  shows "savings_outer d depot ls acc todo =
           Inr (acc @ concat (map (\<lambda>l1. map (entry g depot l1) (partners depot l1 ls))
                                  (filter (\<lambda>l1. loc_id l1 \<noteq> loc_id depot) todo)))"
  using assms(2)
proof (induction todo arbitrary: acc)
  case Nil
  show ?case by simp
next
  case (Cons l1 todo)
  have l1: "l1 \<in> set ls" and todo: "set todo \<subseteq> set ls"
    using Cons.prems by auto
  have inner: "savings_inner d depot l1 acc ls =
      Inr (acc @ map (entry g depot l1) (partners depot l1 ls))"
    by (rule savings_inner_eq) (use assms(1) l1 in auto)
  show ?case
    by (simp add: inner Cons.IH [OF todo])
qed

lemma calculateSavings_eq:
  assumes "\<And>x y. x \<in> set (depot # ls) \<Longrightarrow> y \<in> set ls \<Longrightarrow>
             dist d (loc_id x) (loc_id y) = Inr (g x y)"
  shows "calculateSavings d ls depot = Inr (allSavings g ls depot)"
  unfolding calculateSavings_def allSavings_def
  using savings_outer_eq [of depot ls d g ls "[]"] assms by simp

lemma calculateSavings_total:
  assumes "loc_id depot \<in> loc_id ` set ls"
  shows "\<exists>svs. calculateSavings (distances ls) ls depot = Inr svs"
proof -
  define g where "g x y = projr (dist (distances ls) (loc_id x) (loc_id y))"
    for x y :: location
  have "dist (distances ls) (loc_id x) (loc_id y) = Inr (g x y)"
    if "x \<in> set (depot # ls)" "y \<in> set ls" for x y
  proof -
    from that assms have "loc_id x \<in> loc_id ` set ls" "loc_id y \<in> loc_id ` set ls" by auto
    from dist_hit [OF this] show ?thesis by (auto simp: g_def)
  qed
  from calculateSavings_eq [of depot ls "distances ls" g, OF this] show ?thesis by blast
qed

text \<open>The scenarios: their fields, their table and their savings.\<close>

lemma ex_fields:
  "loc_id ex_depot = ''d''" "loc_id (ex_stopA qa) = ''a''" "loc_id (ex_stopB qb) = ''b''"
  "loc_latitude ex_depot = 0" "loc_latitude (ex_stopA qa) = 0" "loc_latitude (ex_stopB qb) = 0"
  "loc_longitude ex_depot = 0" "loc_longitude (ex_stopA qa) = 1" "loc_longitude (ex_stopB qb) = 2"
  "loc_demand ex_depot = 0" "loc_demand (ex_stopA qa) = qa" "loc_demand (ex_stopB qb) = qb"
  by (simp_all add: ex_depot_def ex_stopA_def ex_stopB_def)


lemma ex_dist:
  "dist (distances (ex_locations qa qb)) x y =
     (if x \<in> {''d'', ''a'', ''b''} then
        if y \<in> {''d'', ''a'', ''b''} then
          Inr (calculateDistance 0 (if x = ''d'' then 0 else if x = ''a'' then 1 else 2)
                                 0 (if y = ''d'' then 0 else if y = ''a'' then 1 else 2))
        else Inl UndefinedDistance
      else Inl TypeError)"
  by (simp add: dist_def distances_def distances_row_def ex_locations_def ex_fields)

lemma ex_calculateSavings:
  "calculateSavings (distances (ex_locations qa qb)) (ex_locations qa qb) ex_depot =
     Inr (ex_savings qa qb)"
proof -
  have "savings_outer (distances (ex_locations qa qb)) ex_depot
          [ex_depot, ex_stopA qa, ex_stopB qb] [] [ex_depot, ex_stopA qa, ex_stopB qb] =
        Inr (ex_savings qa qb)"
    by (simp add: ex_dist ex_fields ex_savings_def)
  then show ?thesis
    by (simp add: calculateSavings_def ex_locations_def [symmetric])
qed

lemma ex_sortSavings: "sortSavings (ex_savings qa qb) = ex_savings qa qb"
  by (simp add: sortSavings_def ex_savings_def calculateDistance_sym [of 0 2 0 1])

section \<open>Counting the entries of a pair\<close>











section \<open>The order of the savings list\<close>

text \<open>
  The sort of the model, on savings that are numbers, puts the entries in non-increasing order
  of saving. What the program does with a NaN saving is not in the model.
\<close>

lemma sortSavings_sorted: "sorted_wrt (\<lambda>x y. saving y \<le> saving x) (sortSavings svs)"
proof -
  have "sorted (map (\<lambda>s. - saving s) (sortSavings svs))"
    unfolding sortSavings_def by (rule sorted_sort_key)
  then show ?thesis by (simp add: sorted_map)
qed

section \<open>The fleet\<close>

text \<open>
  The pool keeps the identifiers and capacities of its instances; a new pool is fresh, and has
  as many instances as the counts add up to.
\<close>

lemma same_fleet_refl: "same_fleet V V"
  by (simp add: same_fleet_def)

lemma same_fleet_length: "same_fleet vs V \<Longrightarrow> length vs = length V"
  unfolding same_fleet_def by (rule map_eq_imp_length_eq)

lemma same_fleet_nth:
  assumes "same_fleet vs V" and "i < length V"
  shows "veh_id (vs ! i) = veh_id (V ! i) \<and> capacity (vs ! i) = capacity (V ! i)"
proof -
  have "map (\<lambda>v. (veh_id v, capacity v)) vs ! i = map (\<lambda>v. (veh_id v, capacity v)) V ! i"
    using assms(1) by (simp add: same_fleet_def)
  then show ?thesis
    using assms(2) same_fleet_length [OF assms(1)] by simp
qed

lemma same_fleet_update:
  assumes "same_fleet vs V"
  shows "same_fleet (vs[i := (vs ! i)\<lparr>remainingCapacity := x\<rparr>]) V"
proof (cases "i < length vs")
  case True
  have "map (\<lambda>v. (veh_id v, capacity v)) (vs[i := (vs ! i)\<lparr>remainingCapacity := x\<rparr>]) =
        (map (\<lambda>v. (veh_id v, capacity v)) vs)[i := (veh_id (vs ! i), capacity (vs ! i))]"
    by (simp add: map_update)
  also have "\<dots> = map (\<lambda>v. (veh_id v, capacity v)) vs"
    using True by (metis (mono_tags, lifting) list_update_id nth_map)
  finally show ?thesis using assms by (simp add: same_fleet_def)
next
  case False
  then show ?thesis using assms by (simp add: list_update_beyond)
qed

lemma expandVehicles_fresh:
  "v \<in> set (expandVehicles vehicles) \<Longrightarrow>
     remainingCapacity v = capacity v \<and>
     (\<exists>v0\<in>set vehicles. veh_id v = veh_id v0 \<and> capacity v = capacity v0 \<and> 0 < count v0)"
  by (auto simp: expandVehicles_def newInstance_def vehicle.defs vehicle_instance.defs)

lemma length_expandVehicles: "length (expandVehicles vehicles) = sum_list (map count vehicles)"
  by (simp add: expandVehicles_def length_concat comp_def)

lemma find_vehicle_Some:
  "find_vehicle vs vid i = Some k \<Longrightarrow> i \<le> k \<and> k - i < length vs \<and> veh_id (vs ! (k - i)) = vid"
proof (induction vs arbitrary: i)
  case Nil
  then show ?case by simp
next
  case (Cons v vs)
  show ?case
  proof (cases "veh_id v = vid")
    case True
    with Cons.prems show ?thesis by simp
  next
    case False
    with Cons.prems have "find_vehicle vs vid (Suc i) = Some k" by simp
    from Cons.IH [OF this]
    have k: "Suc i \<le> k" "k - Suc i < length vs" "veh_id (vs ! (k - Suc i)) = vid"
      by simp_all
    moreover from k(1) have "k - i = Suc (k - Suc i)" by simp
    ultimately show ?thesis by simp
  qed
qed

section \<open>The stops of a merged route\<close>

text \<open>
  The stops of a merged route are the first stop of the first route, the inner stops of both
  routes, and the first stop again, renumbered; identifiers and demands stay as they were.
\<close>

lemma push_stops_renumber: "push_stops ns k ss = (ns @ renumber k ss, k + length ss)"
  by (induction ss arbitrary: ns k) simp_all

lemma length_renumber: "length (renumber k ss) = length ss"
  by (induction ss arbitrary: k) simp_all

lemma map_locationId_renumber: "map locationId (renumber k ss) = map locationId ss"
  by (induction ss arbitrary: k) simp_all

lemma map_demand_renumber: "map demand (renumber k ss) = map demand ss"
  by (induction ss arbitrary: k) simp_all

lemma set_renumber: "m \<in> set (renumber k ss) \<Longrightarrow> \<exists>s\<in>set ss. \<exists>j. m = s\<lparr>order := j\<rparr>"
  by (induction ss arbitrary: k) auto

lemma mergedStops_eq:
  "mergedStops s0 r1 r2 =
     s0\<lparr>order := 0\<rparr> # renumber 1 (slice_inner (stops r1)) @
     renumber (Suc (length (slice_inner (stops r1)))) (slice_inner (stops r2)) @
     [s0\<lparr>order := Suc (length (slice_inner (stops r1)) + length (slice_inner (stops r2)))\<rparr>]"
  by (simp add: mergedStops_def Let_def push_stops_renumber length_renumber)

lemma slice_inner_ends: "slice_inner (a # mids @ [b]) = mids"
  by (simp add: slice_inner_def)

lemma routable_order: "routable depot ls V (s\<lparr>order := j\<rparr>) = routable depot ls V s"
  by (simp add: routable_def)

lemma routable_renumber:
  "\<forall>m\<in>set ss. routable depot ls V m \<Longrightarrow> \<forall>m\<in>set (renumber k ss). routable depot ls V m"
  by (auto dest!: set_renumber simp: routable_order)

lemma depotStop_order: "(depotStop l k)\<lparr>order := j\<rparr> = depotStop l j"
  by (simp add: depotStop_def)

section \<open>Finding the two routes\<close>

text \<open>
  The loop returns, for each of the two stops, the first route that contains it, with its
  index.
\<close>

lemma find_routes_Cons:
  "find_routes (r # rs) i l1 l2 a b =
     (if (if containsLoc r l1 \<and> a = None then Some (i, r) else a) \<noteq> None \<and>
         (if containsLoc r l2 \<and> b = None then Some (i, r) else b) \<noteq> None
      then (if containsLoc r l1 \<and> a = None then Some (i, r) else a,
            if containsLoc r l2 \<and> b = None then Some (i, r) else b)
      else find_routes rs (Suc i) l1 l2
             (if containsLoc r l1 \<and> a = None then Some (i, r) else a)
             (if containsLoc r l2 \<and> b = None then Some (i, r) else b))"
  by (simp only: find_routes.simps Let_def)

lemma find_routes_fst:
  "find_routes rs i l1 l2 a b = (a', b') \<Longrightarrow>
     a' = a \<or> (a = None \<and> (\<exists>k<length rs. a' = Some (i + k, rs ! k) \<and> containsLoc (rs ! k) l1))"
proof (induction rs arbitrary: i a b)
  case Nil
  then show ?case by simp
next
  case (Cons r rs)
  define a1 where "a1 = (if containsLoc r l1 \<and> a = None then Some (i, r) else a)"
  define b1 where "b1 = (if containsLoc r l2 \<and> b = None then Some (i, r) else b)"
  define both where "both = (a1 \<noteq> None \<and> b1 \<noteq> None)"
  have step: "find_routes (r # rs) i l1 l2 a b =
      (if both then (a1, b1) else find_routes rs (Suc i) l1 l2 a1 b1)"
    unfolding a1_def b1_def both_def by (rule find_routes_Cons)
  have here: "a1 = a \<or> (a = None \<and> a1 = Some (i + 0, (r # rs) ! 0) \<and> containsLoc ((r # rs) ! 0) l1)"
    by (simp add: a1_def)
  show ?case
  proof (cases both)
    case True
    with Cons.prems [unfolded step] have "a' = a1" by simp
    with here show ?thesis by (metis length_Cons zero_less_Suc)
  next
    case False
    with Cons.prems [unfolded step] have "find_routes rs (Suc i) l1 l2 a1 b1 = (a', b')" by simp
    from Cons.IH [OF this] consider "a' = a1"
      | k where "a1 = None" "k < length rs" "a' = Some (Suc i + k, rs ! k)" "containsLoc (rs ! k) l1"
      by blast
    then show ?thesis
    proof cases
      case 1
      with here show ?thesis by (metis length_Cons zero_less_Suc)
    next
      case 2
      then have "a = None" by (simp add: a1_def split: if_splits)
      moreover have "Suc k < length (r # rs)" "a' = Some (i + Suc k, (r # rs) ! Suc k)"
        "containsLoc ((r # rs) ! Suc k) l1"
        using 2 by simp_all
      ultimately show ?thesis by blast
    qed
  qed
qed

lemma find_routes_snd:
  "find_routes rs i l1 l2 a b = (a', b') \<Longrightarrow>
     b' = b \<or> (b = None \<and> (\<exists>k<length rs. b' = Some (i + k, rs ! k) \<and> containsLoc (rs ! k) l2))"
proof (induction rs arbitrary: i a b)
  case Nil
  then show ?case by simp
next
  case (Cons r rs)
  define a1 where "a1 = (if containsLoc r l1 \<and> a = None then Some (i, r) else a)"
  define b1 where "b1 = (if containsLoc r l2 \<and> b = None then Some (i, r) else b)"
  define both where "both = (a1 \<noteq> None \<and> b1 \<noteq> None)"
  have step: "find_routes (r # rs) i l1 l2 a b =
      (if both then (a1, b1) else find_routes rs (Suc i) l1 l2 a1 b1)"
    unfolding a1_def b1_def both_def by (rule find_routes_Cons)
  have here: "b1 = b \<or> (b = None \<and> b1 = Some (i + 0, (r # rs) ! 0) \<and> containsLoc ((r # rs) ! 0) l2)"
    by (simp add: b1_def)
  show ?case
  proof (cases both)
    case True
    with Cons.prems [unfolded step] have "b' = b1" by simp
    with here show ?thesis by (metis length_Cons zero_less_Suc)
  next
    case False
    with Cons.prems [unfolded step] have "find_routes rs (Suc i) l1 l2 a1 b1 = (a', b')" by simp
    from Cons.IH [OF this] consider "b' = b1"
      | k where "b1 = None" "k < length rs" "b' = Some (Suc i + k, rs ! k)" "containsLoc (rs ! k) l2"
      by blast
    then show ?thesis
    proof cases
      case 1
      with here show ?thesis by (metis length_Cons zero_less_Suc)
    next
      case 2
      then have "b = None" by (simp add: b1_def split: if_splits)
      moreover have "Suc k < length (r # rs)" "b' = Some (i + Suc k, (r # rs) ! Suc k)"
        "containsLoc ((r # rs) ! Suc k) l2"
        using 2 by simp_all
      ultimately show ?thesis by blast
    qed
  qed
qed

lemma find_routes_found:
  assumes "find_routes rs 0 l1 l2 None None = (Some (i1, r1), Some (i2, r2))"
  shows "i1 < length rs \<and> r1 = rs ! i1 \<and> containsLoc r1 l1 \<and>
         i2 < length rs \<and> r2 = rs ! i2 \<and> containsLoc r2 l2"
  using find_routes_fst [OF assms] find_routes_snd [OF assms] by auto

section \<open>The two splices\<close>

text \<open>
  The two splices put the merged route among the routes that were there, and leave one route
  less when the two indices are different positions of the array.
\<close>

lemma set_splice_merged: "set (splice_merged rs i1 i2 m) \<subseteq> insert m (set rs)"
proof -
  define removed where "removed = take (max i1 i2) rs @ drop (Suc (max i1 i2)) rs"
  have "set removed \<subseteq> set rs"
    unfolding removed_def
    using set_take_subset [of "max i1 i2" rs] set_drop_subset [of "Suc (max i1 i2)" rs] by simp
  moreover have "set (take (min i1 i2) removed @ m # drop (Suc (min i1 i2)) removed)
      \<subseteq> insert m (set removed)"
    using set_take_subset [of "min i1 i2" removed] set_drop_subset [of "Suc (min i1 i2)" removed]
    by auto
  ultimately have "set (take (min i1 i2) removed @ m # drop (Suc (min i1 i2)) removed)
      \<subseteq> insert m (set rs)"
    by blast
  then show ?thesis
    unfolding splice_merged_def Let_def removed_def .
qed

lemma length_splice_merged:
  assumes "i1 < length rs" and "i2 < length rs" and "i1 \<noteq> i2"
  shows "Suc (length (splice_merged rs i1 i2 m)) = length rs"
proof -
  define mx where "mx = max i1 i2"
  define mn where "mn = min i1 i2"
  define removed where "removed = take mx rs @ drop (Suc mx) rs"
  have eq: "splice_merged rs i1 i2 m = take mn removed @ m # drop (Suc mn) removed"
    by (simp only: splice_merged_def Let_def removed_def mx_def mn_def)
  have "mn < mx"
    unfolding mx_def mn_def using assms(3) by linarith
  moreover have "mx < length rs"
    unfolding mx_def using assms(1,2) by linarith
  moreover from \<open>mx < length rs\<close> have len: "Suc (length removed) = length rs"
    unfolding removed_def by simp
  ultimately have "mn < length removed" by linarith
  then have "length (take mn removed @ m # drop (Suc mn) removed) = length removed"
    by simp
  with len eq show ?thesis by simp
qed

section \<open>Invariant of the route builder\<close>

text \<open>
  A step of the builder either skips the stop or appends the singleton route of the stop on
  the vehicle under the cursor; with the depot among the locations it does not throw, and it
  keeps \<open>build_inv\<close>.
\<close>

lemma build_step_skip: "\<not> assignable st l \<Longrightarrow> build_step d depot st l = Inr st"
  by (auto simp: build_step_def assignable_def Let_def)

lemma build_step_assign:
  assumes "assignable st l"
  shows "build_step d depot st l =
     (case dist d (loc_id depot) (loc_id l) of
        Inl e \<Rightarrow> Inl e
      | Inr x \<Rightarrow>
          Inr \<lparr>bs_routes = bs_routes st @ [singletonRoute depot (bs_vehicles st ! bs_index st) l x],
               bs_vehicles = (bs_vehicles st)
                 [bs_index st := (bs_vehicles st ! bs_index st)
                    \<lparr>remainingCapacity :=
                       js_sub (remainingCapacity (bs_vehicles st ! bs_index st)) (loc_demand l)\<rparr>],
               bs_index = bs_index st + 1\<rparr>)"
  using assms
  by (simp add: build_step_def assignable_def Let_def singletonRoute_def split: sum.splits)

lemma singletonRoute_inv:
  assumes "l \<in> set ls" and "loc_id l \<noteq> loc_id depot"
    and "v \<in> set V" and "loc_demand l \<le> capacity v" and "veh_id v = veh_id v'"
  shows "route_inv depot ls V (singletonRoute depot v' l x)"
proof -
  have "routable depot ls V (depotStop l 1)"
    unfolding routable_def using assms(1-4) by (auto simp: depotStop_def)
  moreover have "stops (singletonRoute depot v' l x) =
      depotStop depot 0 # [depotStop l 1] @ [depotStop depot (Suc (length [depotStop l 1]))]"
    by (simp add: singletonRoute_def numeral_2_eq_2)
  moreover have "accumulated (map demand [depotStop l 1])
      (totalCapacity (singletonRoute depot v' l x))"
    by (simp add: singletonRoute_def depotStop_def accumulated.one)
  moreover have "\<exists>v\<in>set V. veh_id v = vehicleId (singletonRoute depot v' l x) \<and>
      totalCapacity (singletonRoute depot v' l x) \<le> capacity v"
    using assms(3-5) by (auto simp: singletonRoute_def)
  ultimately show ?thesis
    unfolding route_inv_def by (intro exI [of _ "[depotStop l 1]"]) simp
qed

lemma build_step_inv:
  assumes inv: "build_inv depot ls V st"
    and l: "l \<in> set ls" "loc_id l \<noteq> loc_id depot"
    and depot: "loc_id depot \<in> loc_id ` set ls"
  shows "\<exists>st'. build_step (distances ls) depot st l = Inr st' \<and> build_inv depot ls V st'"
proof (cases "assignable st l")
  case False
  with inv show ?thesis by (simp add: build_step_skip)
next
  case True
  define k where "k = bs_index st"
  define vs where "vs = bs_vehicles st"
  have fleet: "same_fleet vs V" and len: "length (bs_routes st) = k" and k: "k < length V"
    and fresh: "\<And>i. k \<le> i \<Longrightarrow> i < length V \<Longrightarrow> remainingCapacity (vs ! i) = capacity (vs ! i)"
    and routes: "\<And>r. r \<in> set (bs_routes st) \<Longrightarrow> route_inv depot ls V r"
    and fits: "loc_demand l \<le> remainingCapacity (vs ! k)"
    using inv True same_fleet_length [of "bs_vehicles st" V]
    by (auto simp: build_inv_def assignable_def k_def vs_def)
  from l(1) depot obtain x where x: "dist (distances ls) (loc_id depot) (loc_id l) = Inr x"
    using dist_hit [of "loc_id depot" ls "loc_id l"] by auto
  define st' where "st' = \<lparr>bs_routes = bs_routes st @ [singletonRoute depot (vs ! k) l x],
      bs_vehicles = vs[k := (vs ! k)\<lparr>remainingCapacity := js_sub (remainingCapacity (vs ! k)) (loc_demand l)\<rparr>],
      bs_index = k + 1\<rparr>"
  have step: "build_step (distances ls) depot st l = Inr st'"
    using True x by (simp add: build_step_assign st'_def k_def vs_def)
  have same: "veh_id (vs ! k) = veh_id (V ! k)" "capacity (vs ! k) = capacity (V ! k)"
    using same_fleet_nth [OF fleet k] by simp_all
  have "loc_demand l \<le> capacity (V ! k)"
    using fits fresh [of k] k same by simp
  then have new: "route_inv depot ls V (singletonRoute depot (vs ! k) l x)"
    using l k same by (intro singletonRoute_inv [of l ls depot "V ! k"]) simp_all
  have "same_fleet (bs_vehicles st') V"
    unfolding st'_def using same_fleet_update [OF fleet] by simp
  moreover have "length (bs_routes st') = bs_index st'" "bs_index st' \<le> length V"
    using len k by (simp_all add: st'_def)
  moreover have "remainingCapacity (bs_vehicles st' ! i) = capacity (bs_vehicles st' ! i)"
    if "bs_index st' \<le> i" "i < length V" for i
    using that fresh [of i] by (simp add: st'_def)
  moreover have "route_inv depot ls V r" if "r \<in> set (bs_routes st')" for r
    using that routes new by (auto simp: st'_def)
  ultimately have "build_inv depot ls V st'"
    unfolding build_inv_def by blast
  with step show ?thesis by blast
qed

lemma build_routes_inv:
  assumes "build_inv depot ls V st"
    and "\<And>l. l \<in> set todo \<Longrightarrow> l \<in> set ls \<and> loc_id l \<noteq> loc_id depot"
    and "loc_id depot \<in> loc_id ` set ls"
  shows "\<exists>st'. build_routes (distances ls) depot st todo = Inr st' \<and> build_inv depot ls V st'"
  using assms(1,2)
proof (induction todo arbitrary: st)
  case Nil
  then show ?case by simp
next
  case (Cons l todo)
  from Cons.prems obtain st1 where
    st1: "build_step (distances ls) depot st l = Inr st1" "build_inv depot ls V st1"
    using build_step_inv [of depot ls V st l] assms(3) by auto
  from Cons.IH [OF st1(2)] Cons.prems(2) st1(1) show ?case by simp
qed

lemma initialState_inv: "build_inv depot ls (expandVehicles vehicles) (initialState vehicles)"
  unfolding build_inv_def initialState_def
  using expandVehicles_fresh [of _ vehicles] by (simp add: same_fleet_refl)

lemma nonDepotLocations_set:
  "l \<in> set (nonDepotLocations ls depot) \<Longrightarrow> l \<in> set ls \<and> loc_id l \<noteq> loc_id depot"
  by (simp add: nonDepotLocations_def)

section \<open>Invariant of the route merger\<close>

text \<open>
  A step of the merger either leaves its state or replaces two routes by their merged route;
  with the depot among the locations it does not throw, and it keeps \<open>merge_inv\<close>.
\<close>

lemma path_distance_hit:
  assumes "\<And>s. s \<in> set ss \<Longrightarrow> locationId s \<in> loc_id ` set ls"
  shows "\<exists>x. path_distance (distances ls) ss td = Inr x"
  using assms
proof (induction "distances ls" ss td rule: path_distance.induct)
  case (1 "from" to rest td)
  from "1.prems" obtain x where x: "dist (distances ls) (locationId from) (locationId to) = Inr x"
    using dist_hit [of "locationId from" ls "locationId to"] by auto
  with "1.hyps" [OF x] "1.prems" show ?case by simp
qed simp_all

lemma merge_step_cases:
  obtains (skip) "merge_step d (rs, vs) sv = Inr (rs, vs)"
  | (nostops) i1 r1 i2 r2 where
      "find_routes rs 0 (loc_id (loc1 sv)) (loc_id (loc2 sv)) None None = (Some (i1, r1), Some (i2, r2))"
      "stops r1 = []" "merge_step d (rs, vs) sv = Inl TypeError"
  | (merge) i1 r1 i2 r2 vi s0 rest where
      "find_routes rs 0 (loc_id (loc1 sv)) (loc_id (loc2 sv)) None None = (Some (i1, r1), Some (i2, r2))"
      "i1 \<noteq> i2" "find_vehicle vs (vehicleId r1) 0 = Some vi"
      "js_add (totalCapacity r1) (totalCapacity r2) \<le> capacity (vs ! vi)"
      "stops r1 = s0 # rest"
      "merge_step d (rs, vs) sv =
         (case path_distance d (mergedStops s0 r1 r2) 0 of
            Inl e \<Rightarrow> Inl e
          | Inr td \<Rightarrow>
              Inr (splice_merged rs i1 i2 (mergedRoute r1 r2 s0 td),
                   vs[vi := (vs ! vi)\<lparr>remainingCapacity :=
                        js_sub (capacity (vs ! vi)) (js_add (totalCapacity r1) (totalCapacity r2))\<rparr>]))"
proof -
  obtain a b where fr: "find_routes rs 0 (loc_id (loc1 sv)) (loc_id (loc2 sv)) None None = (a, b)"
    by (cases "find_routes rs 0 (loc_id (loc1 sv)) (loc_id (loc2 sv)) None None")
  show thesis
  proof (cases a)
    case None
    with fr have "merge_step d (rs, vs) sv = Inr (rs, vs)" by (simp add: merge_step_def)
    then show thesis by (rule skip)
  next
    case a: (Some p1)
    obtain i1 r1 where p1: "p1 = (i1, r1)" by (cases p1)
    show thesis
    proof (cases b)
      case None
      with fr a have "merge_step d (rs, vs) sv = Inr (rs, vs)" by (simp add: merge_step_def)
      then show thesis by (rule skip)
    next
      case b: (Some p2)
      obtain i2 r2 where p2: "p2 = (i2, r2)" by (cases p2)
      have fr': "find_routes rs 0 (loc_id (loc1 sv)) (loc_id (loc2 sv)) None None =
          (Some (i1, r1), Some (i2, r2))"
        using fr a b p1 p2 by simp
      show thesis
      proof (cases "i1 = i2")
        case True
        with fr' have "merge_step d (rs, vs) sv = Inr (rs, vs)" by (simp add: merge_step_def)
        then show thesis by (rule skip)
      next
        case ne: False
        show thesis
        proof (cases "find_vehicle vs (vehicleId r1) 0")
          case None
          with fr' ne have "merge_step d (rs, vs) sv = Inr (rs, vs)"
            by (simp add: merge_step_def)
          then show thesis by (rule skip)
        next
          case fv: (Some vi)
          show thesis
          proof (cases "js_add (totalCapacity r1) (totalCapacity r2) > capacity (vs ! vi)")
            case True
            with fr' ne fv have "merge_step d (rs, vs) sv = Inr (rs, vs)"
              by (simp add: merge_step_def Let_def)
            then show thesis by (rule skip)
          next
            case cap: False
            show thesis
            proof (cases "stops r1")
              case Nil
              with fr' ne fv cap have "merge_step d (rs, vs) sv = Inl TypeError"
                by (simp add: merge_step_def Let_def)
              with fr' Nil show thesis by (rule nostops)
            next
              case (Cons s0 rest)
              with fr' ne fv cap have "merge_step d (rs, vs) sv =
                 (case path_distance d (mergedStops s0 r1 r2) 0 of
                    Inl e \<Rightarrow> Inl e
                  | Inr td \<Rightarrow>
                      Inr (splice_merged rs i1 i2 (mergedRoute r1 r2 s0 td),
                           vs[vi := (vs ! vi)\<lparr>remainingCapacity :=
                                js_sub (capacity (vs ! vi)) (js_add (totalCapacity r1) (totalCapacity r2))\<rparr>]))"
                by (simp add: merge_step_def Let_def mergedRoute_def split: sum.splits)
              with fr' ne fv cap Cons show thesis by (intro merge) simp_all
            qed
          qed
        qed
      qed
    qed
  qed
qed

lemma route_inv_stops_ids:
  assumes "route_inv depot ls V r" and "loc_id depot \<in> loc_id ` set ls" and "s \<in> set (stops r)"
  shows "locationId s \<in> loc_id ` set ls"
proof -
  from assms(1) obtain mids where
    st: "stops r = depotStop depot 0 # mids @ [depotStop depot (Suc (length mids))]"
    and mids: "\<forall>m\<in>set mids. routable depot ls V m"
    unfolding route_inv_def by blast
  from assms(3) st consider "s = depotStop depot 0" | "s \<in> set mids"
    | "s = depotStop depot (Suc (length mids))" by auto
  then show ?thesis
  proof cases
    case 2
    with mids show ?thesis by (auto simp: routable_def)
  qed (use assms(2) in \<open>simp_all add: depotStop_def\<close>)
qed

lemma mergedRoute_inv:
  assumes r1: "route_inv depot ls V r1" and r2: "route_inv depot ls V r2"
    and s0: "stops r1 = s0 # rest"
    and v: "v \<in> set V" "veh_id v = vehicleId r1" "js_add (totalCapacity r1) (totalCapacity r2) \<le> capacity v"
  shows "route_inv depot ls V (mergedRoute r1 r2 s0 td)"
proof -
  from r1 obtain m1 where
    st1: "stops r1 = depotStop depot 0 # m1 @ [depotStop depot (Suc (length m1))]"
    and ok1: "\<forall>m\<in>set m1. routable depot ls V m"
    and tc1: "accumulated (map demand m1) (totalCapacity r1)"
    unfolding route_inv_def by blast
  from r2 obtain m2 where
    st2: "stops r2 = depotStop depot 0 # m2 @ [depotStop depot (Suc (length m2))]"
    and ok2: "\<forall>m\<in>set m2. routable depot ls V m"
    and tc2: "accumulated (map demand m2) (totalCapacity r2)"
    unfolding route_inv_def by blast
  define mids where "mids = renumber 1 m1 @ renumber (Suc (length m1)) m2"
  have s0_eq: "s0 = depotStop depot 0" using s0 st1 by simp
  have sl: "slice_inner (stops r1) = m1" "slice_inner (stops r2) = m2"
    by (simp_all only: st1 st2 slice_inner_ends)
  have "stops (mergedRoute r1 r2 s0 td) =
      depotStop depot 0 # mids @ [depotStop depot (Suc (length mids))]"
    by (simp add: mergedRoute_def mergedStops_eq sl s0_eq depotStop_order mids_def length_renumber)
  moreover have "\<forall>m\<in>set mids. routable depot ls V m"
    unfolding mids_def using routable_renumber [OF ok1] routable_renumber [OF ok2] by auto
  moreover have "accumulated (map demand mids) (totalCapacity (mergedRoute r1 r2 s0 td))"
    using accumulated.add [OF tc1 tc2]
    by (simp add: mergedRoute_def mids_def map_demand_renumber)
  moreover have "\<exists>v\<in>set V. veh_id v = vehicleId (mergedRoute r1 r2 s0 td) \<and>
      totalCapacity (mergedRoute r1 r2 s0 td) \<le> capacity v"
    using v by (auto simp: mergedRoute_def)
  ultimately show ?thesis unfolding route_inv_def by blast
qed

lemma image_locationId_renumber: "locationId ` set (renumber k ss) = locationId ` set ss"
  by (metis map_locationId_renumber set_map)

lemma set_slice_inner: "set (slice_inner xs) \<subseteq> set xs"
  unfolding slice_inner_def by (cases xs) (auto dest: in_set_butlastD)

lemma mergedStops_locationIds:
  "locationId ` set (mergedStops s0 r1 r2) =
     insert (locationId s0) (locationId ` set (slice_inner (stops r1)) \<union>
       locationId ` set (slice_inner (stops r2)))"
  by (simp add: mergedStops_eq image_Un image_locationId_renumber Un_insert_right)

lemma mergedStops_ids:
  assumes "route_inv depot ls V r1" and "route_inv depot ls V r2"
    and "stops r1 = s0 # rest" and "loc_id depot \<in> loc_id ` set ls"
    and "s \<in> set (mergedStops s0 r1 r2)"
  shows "locationId s \<in> loc_id ` set ls"
proof -
  have ids1: "locationId ` set (stops r1) \<subseteq> loc_id ` set ls"
    using route_inv_stops_ids [OF assms(1,4)] by blast
  have ids2: "locationId ` set (stops r2) \<subseteq> loc_id ` set ls"
    using route_inv_stops_ids [OF assms(2,4)] by blast
  have "locationId s0 \<in> locationId ` set (stops r1)"
    using assms(3) by simp
  moreover have "locationId ` set (slice_inner (stops r1)) \<subseteq> locationId ` set (stops r1)"
    "locationId ` set (slice_inner (stops r2)) \<subseteq> locationId ` set (stops r2)"
    using set_slice_inner by (rule image_mono)+
  ultimately have "locationId ` set (mergedStops s0 r1 r2) \<subseteq> loc_id ` set ls"
    unfolding mergedStops_locationIds using ids1 ids2 by blast
  with assms(5) show ?thesis by blast
qed

lemma merge_step_inv:
  assumes inv: "merge_inv depot ls V (rs, vs)" and depot: "loc_id depot \<in> loc_id ` set ls"
  shows "\<exists>rs' vs'. merge_step (distances ls) (rs, vs) sv = Inr (rs', vs') \<and>
           merge_inv depot ls V (rs', vs') \<and> (rs' = rs \<or> Suc (length rs') = length rs)"
proof (cases rule: merge_step_cases [where d = "distances ls" and rs = rs and vs = vs and sv = sv])
  case skip
  with inv show ?thesis by blast
next
  case (nostops i1 r1 i2 r2)
  from find_routes_found [OF nostops(1)] have "r1 \<in> set rs" by simp
  with inv have "route_inv depot ls V r1" by (simp add: merge_inv_def)
  with nostops(2) show ?thesis by (simp add: route_inv_def)
next
  case (merge i1 r1 i2 r2 vi s0 rest)
  from find_routes_found [OF merge(1)] have
    i: "i1 < length rs" "i2 < length rs" and r: "r1 \<in> set rs" "r2 \<in> set rs"
    by simp_all
  from inv r have r1: "route_inv depot ls V r1" and r2: "route_inv depot ls V r2"
    and fleet: "same_fleet vs V"
    by (simp_all add: merge_inv_def)
  from find_vehicle_Some [OF merge(3)] have vi: "vi < length vs" "veh_id (vs ! vi) = vehicleId r1"
    by simp_all
  from vi(1) same_fleet_length [OF fleet] have viV: "vi < length V" by simp
  from same_fleet_nth [OF fleet viV] vi(2) merge(4) have
    v: "V ! vi \<in> set V" "veh_id (V ! vi) = vehicleId r1"
       "js_add (totalCapacity r1) (totalCapacity r2) \<le> capacity (V ! vi)"
    using viV by simp_all
  obtain td where td: "path_distance (distances ls) (mergedStops s0 r1 r2) 0 = Inr td"
    using path_distance_hit [of "mergedStops s0 r1 r2" ls 0]
      mergedStops_ids [OF r1 r2 merge(5) depot] by blast
  define rs' where "rs' = splice_merged rs i1 i2 (mergedRoute r1 r2 s0 td)"
  define vs' where "vs' = vs[vi := (vs ! vi)\<lparr>remainingCapacity :=
                        js_sub (capacity (vs ! vi)) (js_add (totalCapacity r1) (totalCapacity r2))\<rparr>]"
  have step: "merge_step (distances ls) (rs, vs) sv = Inr (rs', vs')"
    using merge(6) td by (simp add: rs'_def vs'_def)
  have new: "route_inv depot ls V (mergedRoute r1 r2 s0 td)"
    using r1 r2 merge(5) v by (rule mergedRoute_inv)
  have "route_inv depot ls V r" if "r \<in> set rs'" for r
  proof -
    from that set_splice_merged [of rs i1 i2 "mergedRoute r1 r2 s0 td"]
    have "r = mergedRoute r1 r2 s0 td \<or> r \<in> set rs" unfolding rs'_def by blast
    with new inv show ?thesis by (auto simp: merge_inv_def)
  qed
  moreover have "same_fleet vs' V"
    unfolding vs'_def using fleet by (rule same_fleet_update)
  ultimately have "merge_inv depot ls V (rs', vs')" by (simp add: merge_inv_def)
  moreover have "Suc (length rs') = length rs"
    unfolding rs'_def using i merge(2) by (rule length_splice_merged)
  ultimately show ?thesis using step by blast
qed

lemma merge_routes_inv:
  assumes "merge_inv depot ls V (rs, vs)" and "loc_id depot \<in> loc_id ` set ls"
  shows "\<exists>rs' vs'. merge_routes (distances ls) (rs, vs) svs = Inr (rs', vs') \<and>
           merge_inv depot ls V (rs', vs') \<and> length rs' \<le> length rs"
  using assms(1)
proof (induction svs arbitrary: rs vs)
  case Nil
  then show ?case by simp
next
  case (Cons sv svs)
  from merge_step_inv [OF Cons.prems assms(2), of sv] obtain rs1 vs1 where
    s1: "merge_step (distances ls) (rs, vs) sv = Inr (rs1, vs1)"
      "merge_inv depot ls V (rs1, vs1)" "length rs1 \<le> length rs"
    by auto
  from Cons.IH [OF s1(2)] obtain rs' vs' where
    "merge_routes (distances ls) (rs1, vs1) svs = Inr (rs', vs')"
    "merge_inv depot ls V (rs', vs')" "length rs' \<le> length rs1"
    by blast
  with s1 show ?case by auto
qed

text \<open>
  A run on a depot that is one of the locations returns, and every route it returns has the
  shape, the demand and the vehicle of \<open>route_inv\<close>; there are no more routes than
  instances in the pool.
\<close>

lemma clarkeWrightAlgorithm_inv:
  assumes "loc_id depot \<in> loc_id ` set ls"
  shows "\<exists>rs. clarkeWrightAlgorithm vehicles ls depot = Inr rs \<and>
           (\<forall>r\<in>set rs. route_inv depot ls (expandVehicles vehicles) r) \<and>
           length rs \<le> length (expandVehicles vehicles)"
proof -
  define V where "V = expandVehicles vehicles"
  obtain svs where svs: "calculateSavings (distances ls) ls depot = Inr svs"
    using calculateSavings_total [OF assms] by blast
  have "\<exists>st. build_routes (distances ls) depot (initialState vehicles)
      (nonDepotLocations ls depot) = Inr st \<and> build_inv depot ls V st"
    unfolding V_def
    by (rule build_routes_inv [OF initialState_inv _ assms]) (rule nonDepotLocations_set)
  then obtain st where st: "build_routes (distances ls) depot (initialState vehicles)
      (nonDepotLocations ls depot) = Inr st" and bi: "build_inv depot ls V st"
    by blast
  from bi have mi: "merge_inv depot ls V (bs_routes st, bs_vehicles st)"
    and len: "length (bs_routes st) \<le> length V"
    by (simp_all add: build_inv_def merge_inv_def)
  from merge_routes_inv [OF mi assms, of "sortSavings svs"] obtain rs' vs' where
    m: "merge_routes (distances ls) (bs_routes st, bs_vehicles st) (sortSavings svs) = Inr (rs', vs')"
      "merge_inv depot ls V (rs', vs')" "length rs' \<le> length (bs_routes st)"
    by blast
  have "clarkeWrightAlgorithm vehicles ls depot = Inr rs'"
    by (simp add: clarkeWrightAlgorithm_def Let_def svs st m(1))
  with m(2,3) len show ?thesis
    unfolding V_def by (auto simp: merge_inv_def)
qed

section \<open>Values of the binary64 arithmetic\<close>

text \<open>
  In the binade of \<open>2 ^ k\<close> the last place has the exponent \<open>k - 52\<close>, or \<open>-1074\<close>
  among the subnormal numbers; this gives the value of a rounding without a logarithm.
\<close>

lemma pow2_powr: "pow2 e = 2 powr (of_int e)"
  by (simp add: pow2_def powr_int)

lemma pow2_pos: "0 < pow2 e"
  by (simp add: pow2_powr)

lemma round64_binade:
  assumes "pow2 k \<le> \<bar>x\<bar>" and "\<bar>x\<bar> < pow2 (k + 1)" and "e = max (k - 52) (- 1074)"
  shows "round64 x = of_int (roundHalfEven (x / pow2 e)) * pow2 e"
proof -
  from assms(1) pow2_pos [of k] have pos: "0 < \<bar>x\<bar>" by linarith
  then have "x \<noteq> 0" by auto
  moreover have "\<lfloor>log 2 \<bar>x\<bar>\<rfloor> = k"
    using assms(1,2) pos by (simp add: floor_log_eq_powr_iff pow2_powr)
  ultimately show ?thesis
    by (simp add: round64_def ulpExponent_def assms(3))
qed

text \<open>The sums and differences of the scenarios with whole demands are exact.\<close>

lemma js_sub_10_5: "js_sub 10 5 = 5"
  using round64_binade [of 2 5 "-50"]
  by (simp add: js_sub_def pow2_def roundHalfEven_def)

lemma js_add_5_5: "js_add 5 5 = 10"
  using round64_binade [of 3 10 "-49"]
  by (simp add: js_add_def pow2_def roundHalfEven_def)

section \<open>The runs of the scenarios\<close>

text \<open>
  The runs of the algorithm on the scenarios, evaluated step by step.
\<close>

lemma ex_instance:
  "veh_id (newInstance (ex_vehicle c n)) = ''v''"
  "veh_name (newInstance (ex_vehicle c n)) = ''Van''"
  "capacity (newInstance (ex_vehicle c n)) = c"
  "remainingCapacity (newInstance (ex_vehicle c n)) = c"
  "count (ex_vehicle c n) = n"
  "veh_id (ex_vehicle c n) = ''v''"
  "capacity (ex_vehicle c n) = c"
  by (simp_all add: ex_vehicle_def newInstance_def vehicle.defs vehicle_instance.defs)

lemma ex_nonDepot:
  "nonDepotLocations (ex_locations qa qb) ex_depot = [ex_stopA qa, ex_stopB qb]"
  by (simp add: nonDepotLocations_def ex_locations_def ex_fields)

lemma ex_stop_fields:
  "locationId (depotStop l k) = loc_id l" "demand (depotStop l k) = loc_demand l"
  "order (depotStop l k) = k"
  by (simp_all add: depotStop_def)

text \<open>Capacity 10, one vehicle: the only instance goes to the first stop.\<close>

lemma ex_build_10_1:
  "build_routes (distances (ex_locations 5 5)) ex_depot (initialState [ex_vehicle 10 1])
     (nonDepotLocations (ex_locations 5 5) ex_depot) =
   Inr \<lparr>bs_routes = [ex_routeA],
         bs_vehicles = [(newInstance (ex_vehicle 10 1))\<lparr>remainingCapacity := 5\<rparr>],
         bs_index = 1\<rparr>"
  by (simp add: ex_nonDepot initialState_def expandVehicles_def build_step_def Let_def
      ex_dist ex_fields ex_instance ex_routeA_def js_sub_10_5)

lemma ex_run_10_1:
  "clarkeWrightAlgorithm [ex_vehicle 10 1] (ex_locations 5 5) ex_depot = Inr [ex_routeA]"
  unfolding clarkeWrightAlgorithm_def Let_def ex_calculateSavings ex_build_10_1 sum.case
    ex_sortSavings
  by (simp add: ex_savings_def merge_step_def containsLoc_def ex_stop_fields ex_fields
      ex_routeA_def)

text \<open>Capacity 10, two vehicles: two singleton routes, merged by the first saving.\<close>

lemma ex_build_10_2:
  "build_routes (distances (ex_locations 5 5)) ex_depot (initialState [ex_vehicle 10 2])
     (nonDepotLocations (ex_locations 5 5) ex_depot) =
   Inr \<lparr>bs_routes = [ex_routeA, ex_routeB],
         bs_vehicles = [(newInstance (ex_vehicle 10 2))\<lparr>remainingCapacity := 5\<rparr>,
                        (newInstance (ex_vehicle 10 2))\<lparr>remainingCapacity := 5\<rparr>],
         bs_index = 2\<rparr>"
  by (simp add: ex_nonDepot initialState_def expandVehicles_def build_step_def Let_def
      ex_dist ex_fields ex_instance numeral_2_eq_2 ex_routeA_def ex_routeB_def js_sub_10_5)

lemma ex_run_10_2:
  "clarkeWrightAlgorithm [ex_vehicle 10 2] (ex_locations 5 5) ex_depot = Inr [ex_routeAB]"
  unfolding clarkeWrightAlgorithm_def Let_def ex_calculateSavings ex_build_10_2 sum.case
    ex_sortSavings
  apply (simp add: ex_savings_def merge_step_def containsLoc_def ex_stop_fields ex_fields
      ex_instance slice_inner_def splice_merged_def ex_dist Let_def mergedStops_def js_add_5_5
      ex_routeA_def ex_routeB_def ex_routeAB_def)
  apply (simp add: depotStop_def)
  done

text \<open>Capacity 4: no stop fits, whatever the number of vehicles.\<close>

lemma ex_build_4:
  "build_routes (distances (ex_locations 5 5)) ex_depot (initialState [ex_vehicle 4 n])
     (nonDepotLocations (ex_locations 5 5) ex_depot) = Inr (initialState [ex_vehicle 4 n])"
  by (simp add: ex_nonDepot initialState_def expandVehicles_def build_step_def Let_def
      ex_fields ex_instance)

lemma ex_run_4: "clarkeWrightAlgorithm [ex_vehicle 4 n] (ex_locations 5 5) ex_depot = Inr []"
  unfolding clarkeWrightAlgorithm_def Let_def ex_calculateSavings ex_build_4 sum.case
    ex_sortSavings
  by (simp add: ex_savings_def merge_step_def initialState_def)

text \<open>Capacity 10, two vehicles, and a second stop of demand 50: it gets no route.\<close>

lemma ex_build_50:
  "build_routes (distances (ex_locations 5 50)) ex_depot (initialState [ex_vehicle 10 2])
     (nonDepotLocations (ex_locations 5 50) ex_depot) =
   Inr \<lparr>bs_routes = [ex_routeA],
         bs_vehicles = [(newInstance (ex_vehicle 10 2))\<lparr>remainingCapacity := 5\<rparr>,
                        newInstance (ex_vehicle 10 2)],
         bs_index = 1\<rparr>"
  by (simp add: ex_nonDepot initialState_def expandVehicles_def build_step_def Let_def
      ex_dist ex_fields ex_instance numeral_2_eq_2 ex_routeA_def depotStop_def js_sub_10_5)

lemma ex_run_50:
  "clarkeWrightAlgorithm [ex_vehicle 10 2] (ex_locations 5 50) ex_depot = Inr [ex_routeA]"
  unfolding clarkeWrightAlgorithm_def Let_def ex_calculateSavings ex_build_50 sum.case
    ex_sortSavings
  by (simp add: ex_savings_def merge_step_def containsLoc_def ex_stop_fields ex_fields
      ex_routeA_def)

section \<open>A run where the rounding decides\<close>

lemma dbl_values:
  "dbl_0_1 = 3602879701896397 / 2 ^ 55" "dbl_0_2 = 3602879701896397 / 2 ^ 54"
  "dbl_0_3 = 5404319552844595 / 2 ^ 54" "dbl_0_6 = 5404319552844595 / 2 ^ 53"
  using round64_binade [of "-4" "1 / 10" "-56"] round64_binade [of "-3" "2 / 10" "-55"]
    round64_binade [of "-2" "3 / 10" "-54"] round64_binade [of "-1" "6 / 10" "-53"]
  by (simp_all add: dbl_0_1_def dbl_0_2_def dbl_0_3_def dbl_0_6_def pow2_def roundHalfEven_def)

lemma round64_half: "round64 (1 / 2) = 1 / 2"
  using round64_binade [of "-1" "1 / 2" "-53"]
  by (simp add: pow2_def roundHalfEven_def)

lemma js_add_02_03: "js_add dbl_0_2 dbl_0_3 = 1 / 2"
proof -
  have "dbl_0_2 + dbl_0_3 = 1 / 2" by (simp add: dbl_values)
  then show ?thesis by (simp only: js_add_def round64_half)
qed

lemma js_add_01_05: "js_add dbl_0_1 (1 / 2) = dbl_0_6"
proof -
  have s: "dbl_0_1 + 1 / 2 = 21617278211378381 / 2 ^ 55" by (simp add: dbl_values)
  have r: "round64 (21617278211378381 / 2 ^ 55) = 5404319552844595 / 2 ^ 53"
    using round64_binade [of "-1" "21617278211378381 / 2 ^ 55" "-53"]
    by (simp add: pow2_def roundHalfEven_def)
  have "js_add dbl_0_1 (1 / 2) = round64 (dbl_0_1 + 1 / 2)"
    by (simp only: js_add_def)
  also have "\<dots> = 5404319552844595 / 2 ^ 53"
    by (simp only: s r)
  also have "\<dots> = dbl_0_6"
    by (simp only: dbl_values)
  finally show ?thesis .
qed

lemma js_add_0_01: "js_add 0 dbl_0_1 = dbl_0_1"
proof -
  have "round64 (3602879701896397 / 2 ^ 55) = 3602879701896397 / 2 ^ 55"
    using round64_binade [of "-4" "3602879701896397 / 2 ^ 55" "-56"]
    by (simp add: pow2_def roundHalfEven_def)
  then have "round64 dbl_0_1 = dbl_0_1"
    by (simp only: dbl_values)
  then show ?thesis
    by (simp only: js_add_def add_0)
qed

lemma js_add_01_02: "js_add dbl_0_1 dbl_0_2 = 5404319552844596 / 2 ^ 54"
proof -
  have s: "dbl_0_1 + dbl_0_2 = 10808639105689191 / 2 ^ 55" by (simp add: dbl_values)
  have "round64 (10808639105689191 / 2 ^ 55) = 5404319552844596 / 2 ^ 54"
    using round64_binade [of "-2" "10808639105689191 / 2 ^ 55" "-54"]
    by (simp add: pow2_def roundHalfEven_def)
  then show ?thesis
    by (simp only: js_add_def s)
qed

lemma js_add_012_03: "js_add (5404319552844596 / 2 ^ 54) dbl_0_3 = 5404319552844596 / 2 ^ 53"
proof -
  have s: "5404319552844596 / 2 ^ 54 + dbl_0_3 = 10808639105689191 / 2 ^ 54"
    by (simp add: dbl_values)
  have "round64 (10808639105689191 / 2 ^ 54) = 5404319552844596 / 2 ^ 53"
    using round64_binade [of "-1" "10808639105689191 / 2 ^ 54" "-53"]
    by (simp add: pow2_def roundHalfEven_def)
  then show ?thesis
    by (simp only: js_add_def s)
qed

lemma jsSum_fl: "jsSum [dbl_0_1, dbl_0_2, dbl_0_3] = 5404319552844596 / 2 ^ 53"
  by (simp only: jsSum_def foldl.simps js_add_0_01 js_add_01_02 js_add_012_03)

lemma dbl_order:
  "\<not> dbl_0_6 < dbl_0_1" "\<not> dbl_0_6 < dbl_0_2" "\<not> dbl_0_6 < dbl_0_3"
  "\<not> dbl_0_6 < 1 / 2" "\<not> dbl_0_6 * 2 < 1"
  by (simp_all add: dbl_values)

text \<open>The distance of one degree of longitude on the equator is positive.\<close>

lemma calculateDistance_degree_pos: "0 < calculateDistance 0 0 0 1"
proof -
  define t :: real where "t = pi / 360"
  have t: "0 < t" "t < pi / 2" by (simp_all add: t_def)
  moreover from t have "t < pi" using pi_gt_zero by linarith
  ultimately have s: "0 < sin t" and c: "0 < cos t"
    by (simp_all add: sin_gt_zero cos_gt_zero)
  have "1 - sin t * sin t = cos t * cos t"
    using sin_cos_squared_add [of t] by (simp add: power2_eq_square)
  then have "sqrt (1 - sin t * sin t) = cos t"
    using c by (simp add: real_sqrt_mult_self)
  moreover have "sqrt (sin t * sin t) = sin t"
    using s by (simp add: real_sqrt_mult_self)
  ultimately have "atan2 (sqrt (sin t * sin t)) (sqrt (1 - sin t * sin t)) = arctan (sin t / cos t)"
    using c by (simp add: atan2_def)
  moreover have "0 < arctan (sin t / cos t)"
    using s c by (simp add: zero_less_arctan_iff)
  moreover have "calculateDistance 0 0 0 1 =
      6371 * (2 * atan2 (sqrt (sin t * sin t)) (sqrt (1 - sin t * sin t)))"
    by (simp add: calculateDistance_def Let_def t_def)
  ultimately show ?thesis by simp
qed

lemma fl_fields:
  "loc_id fl_stopA = ''a''" "loc_id fl_stopB = ''b''" "loc_id fl_stopC = ''c''"
  "loc_latitude fl_stopA = 0" "loc_latitude fl_stopB = 0" "loc_latitude fl_stopC = 0"
  "loc_longitude fl_stopA = 0" "loc_longitude fl_stopB = 1" "loc_longitude fl_stopC = 1"
  "loc_demand fl_stopA = dbl_0_1" "loc_demand fl_stopB = dbl_0_2" "loc_demand fl_stopC = dbl_0_3"
  by (simp_all add: fl_stopA_def fl_stopB_def fl_stopC_def)

lemma fl_instance:
  "veh_id (newInstance fl_vehicle) = ''v''" "veh_name (newInstance fl_vehicle) = ''Van''"
  "capacity (newInstance fl_vehicle) = dbl_0_6"
  "remainingCapacity (newInstance fl_vehicle) = dbl_0_6"
  "count fl_vehicle = 3" "veh_id fl_vehicle = ''v''" "capacity fl_vehicle = dbl_0_6"
  by (simp_all add: fl_vehicle_def newInstance_def vehicle.defs vehicle_instance.defs)

text \<open>
  Stop \<open>a\<close> is at the depot and the stops \<open>b\<close> and \<open>c\<close> are one degree of longitude
  away, at the same place.
\<close>

lemma fl_dist:
  "dist (distances fl_locations) x y =
     (if x \<in> {''d'', ''a'', ''b'', ''c''} then
        if y \<in> {''d'', ''a'', ''b'', ''c''} then
          Inr (if (x \<in> {''d'', ''a''}) = (y \<in> {''d'', ''a''}) then 0
               else calculateDistance 0 0 0 1)
        else Inl UndefinedDistance
      else Inl TypeError)"
  by (simp add: dist_def distances_def distances_row_def fl_locations_def fl_fields ex_fields
      calculateDistance_self calculateDistance_sym [of 0 1 0 0])

lemma fl_calculateSavings:
  "calculateSavings (distances fl_locations) fl_locations ex_depot =
     Inr [\<lparr>loc1 = fl_stopA, loc2 = fl_stopB, saving = 0\<rparr>,
          \<lparr>loc1 = fl_stopA, loc2 = fl_stopC, saving = 0\<rparr>,
          \<lparr>loc1 = fl_stopB, loc2 = fl_stopA, saving = 0\<rparr>,
          \<lparr>loc1 = fl_stopB, loc2 = fl_stopC, saving = fl_far + fl_far\<rparr>,
          \<lparr>loc1 = fl_stopC, loc2 = fl_stopA, saving = 0\<rparr>,
          \<lparr>loc1 = fl_stopC, loc2 = fl_stopB, saving = fl_far + fl_far\<rparr>]"
proof -
  have "savings_outer (distances fl_locations) ex_depot
          [ex_depot, fl_stopA, fl_stopB, fl_stopC] [] [ex_depot, fl_stopA, fl_stopB, fl_stopC] =
     Inr [\<lparr>loc1 = fl_stopA, loc2 = fl_stopB, saving = 0\<rparr>,
          \<lparr>loc1 = fl_stopA, loc2 = fl_stopC, saving = 0\<rparr>,
          \<lparr>loc1 = fl_stopB, loc2 = fl_stopA, saving = 0\<rparr>,
          \<lparr>loc1 = fl_stopB, loc2 = fl_stopC, saving = fl_far + fl_far\<rparr>,
          \<lparr>loc1 = fl_stopC, loc2 = fl_stopA, saving = 0\<rparr>,
          \<lparr>loc1 = fl_stopC, loc2 = fl_stopB, saving = fl_far + fl_far\<rparr>]"
    by (simp add: fl_dist fl_fields ex_fields fl_far_def)
  then show ?thesis
    by (simp add: calculateSavings_def fl_locations_def [symmetric])
qed

lemma fl_sortSavings:
  "sortSavings
         [\<lparr>loc1 = fl_stopA, loc2 = fl_stopB, saving = 0\<rparr>,
          \<lparr>loc1 = fl_stopA, loc2 = fl_stopC, saving = 0\<rparr>,
          \<lparr>loc1 = fl_stopB, loc2 = fl_stopA, saving = 0\<rparr>,
          \<lparr>loc1 = fl_stopB, loc2 = fl_stopC, saving = fl_far + fl_far\<rparr>,
          \<lparr>loc1 = fl_stopC, loc2 = fl_stopA, saving = 0\<rparr>,
          \<lparr>loc1 = fl_stopC, loc2 = fl_stopB, saving = fl_far + fl_far\<rparr>] =
         [\<lparr>loc1 = fl_stopB, loc2 = fl_stopC, saving = fl_far + fl_far\<rparr>,
          \<lparr>loc1 = fl_stopC, loc2 = fl_stopB, saving = fl_far + fl_far\<rparr>,
          \<lparr>loc1 = fl_stopA, loc2 = fl_stopB, saving = 0\<rparr>,
          \<lparr>loc1 = fl_stopA, loc2 = fl_stopC, saving = 0\<rparr>,
          \<lparr>loc1 = fl_stopB, loc2 = fl_stopA, saving = 0\<rparr>,
          \<lparr>loc1 = fl_stopC, loc2 = fl_stopA, saving = 0\<rparr>]"
proof -
  have "0 < fl_far" unfolding fl_far_def by (rule calculateDistance_degree_pos)
  then have "\<not> fl_far \<le> 0" "0 \<le> fl_far" by simp_all
  then show ?thesis
    by (simp add: sortSavings_def)
qed

lemma fl_nonDepot: "nonDepotLocations fl_locations ex_depot = [fl_stopA, fl_stopB, fl_stopC]"
  by (simp add: nonDepotLocations_def fl_locations_def fl_fields ex_fields)

lemma fl_build:
  "build_routes (distances fl_locations) ex_depot (initialState [fl_vehicle])
     (nonDepotLocations fl_locations ex_depot) =
   Inr \<lparr>bs_routes = [fl_singleton fl_stopA 0, fl_singleton fl_stopB fl_far,
                      fl_singleton fl_stopC fl_far],
         bs_vehicles = [fl_used dbl_0_1, fl_used dbl_0_2, fl_used dbl_0_3],
         bs_index = 3\<rparr>"
  by (simp add: fl_nonDepot initialState_def expandVehicles_def build_step_def Let_def
      fl_dist fl_fields ex_fields fl_instance numeral_3_eq_3 dbl_order fl_singleton_def
      fl_used_def fl_far_def)

lemma fl_run: "clarkeWrightAlgorithm [fl_vehicle] fl_locations ex_depot = Inr [fl_route]"
  unfolding clarkeWrightAlgorithm_def Let_def fl_calculateSavings fl_build sum.case
    fl_sortSavings
  apply (simp add: merge_step_def containsLoc_def ex_stop_fields ex_fields fl_fields
      fl_instance slice_inner_def splice_merged_def fl_dist Let_def mergedStops_def
      fl_singleton_def fl_used_def js_add_02_03 js_add_01_05 dbl_order fl_route_def fl_far_def)
  apply (simp add: depotStop_def)
  done

section \<open>The route count, for every table\<close>

text \<open>
  Whatever the table holds, the builder leaves as many routes as the cursor's value, which is
  at most the size of the pool, and the merger never adds a route.
\<close>

lemma build_step_count:
  assumes "build_step d depot st l = Inr st'"
    and "length (bs_routes st) = bs_index st" and "bs_index st \<le> length (bs_vehicles st)"
  shows "length (bs_routes st') = bs_index st' \<and> bs_index st' \<le> length (bs_vehicles st') \<and>
         length (bs_vehicles st') = length (bs_vehicles st)"
proof (cases "assignable st l")
  case False
  with assms show ?thesis by (simp add: build_step_skip)
next
  case True
  with assms(1) obtain x where
    "st' = \<lparr>bs_routes = bs_routes st @ [singletonRoute depot (bs_vehicles st ! bs_index st) l x],
           bs_vehicles = (bs_vehicles st)
             [bs_index st := (bs_vehicles st ! bs_index st)
                \<lparr>remainingCapacity :=
                   js_sub (remainingCapacity (bs_vehicles st ! bs_index st)) (loc_demand l)\<rparr>],
           bs_index = bs_index st + 1\<rparr>"
    by (auto simp: build_step_assign split: sum.splits)
  with assms(2) True show ?thesis by (simp add: assignable_def)
qed

lemma build_routes_count:
  assumes "build_routes d depot st todo = Inr st'"
    and "length (bs_routes st) = bs_index st" and "bs_index st \<le> length (bs_vehicles st)"
  shows "length (bs_routes st') = bs_index st' \<and> bs_index st' \<le> length (bs_vehicles st)"
  using assms
proof (induction todo arbitrary: st)
  case Nil
  then show ?case by simp
next
  case (Cons l todo)
  from Cons.prems(1) obtain st1 where
    st1: "build_step d depot st l = Inr st1" "build_routes d depot st1 todo = Inr st'"
    by (auto split: sum.splits)
  from build_step_count [OF st1(1) Cons.prems(2,3)] Cons.IH [OF st1(2)] show ?case by simp
qed

lemma merge_step_count:
  assumes "merge_step d (rs, vs) sv = Inr (rs', vs')"
  shows "rs' = rs \<or> Suc (length rs') = length rs"
proof (cases rule: merge_step_cases [where d = d and rs = rs and vs = vs and sv = sv])
  case skip
  with assms show ?thesis by simp
next
  case (nostops i1 r1 i2 r2)
  with assms show ?thesis by simp
next
  case (merge i1 r1 i2 r2 vi s0 rest)
  from assms merge(6) obtain td where "rs' = splice_merged rs i1 i2 (mergedRoute r1 r2 s0 td)"
    by (auto split: sum.splits)
  with find_routes_found [OF merge(1)] merge(2) show ?thesis
    by (simp add: length_splice_merged)
qed

lemma merge_routes_count:
  "merge_routes d (rs, vs) svs = Inr (rs', vs') \<Longrightarrow> length rs' \<le> length rs"
proof (induction svs arbitrary: rs vs)
  case Nil
  then show ?case by simp
next
  case (Cons sv svs)
  from Cons.prems obtain rs1 vs1 where
    s1: "merge_step d (rs, vs) sv = Inr (rs1, vs1)" "merge_routes d (rs1, vs1) svs = Inr (rs', vs')"
    by (auto split: sum.splits)
  from merge_step_count [OF s1(1)] Cons.IH [OF s1(2)] show ?case by auto
qed

lemma clarkeWrightAlgorithm_count:
  assumes "clarkeWrightAlgorithm vehicles ls depot = Inr rs"
  shows "length rs \<le> sum_list (map count vehicles)"
proof -
  from assms obtain svs st res where
    st: "build_routes (distances ls) depot (initialState vehicles) (nonDepotLocations ls depot) = Inr st"
    and res: "merge_routes (distances ls) (bs_routes st, bs_vehicles st) (sortSavings svs) = Inr res"
    and rs: "rs = fst res"
    by (auto simp: clarkeWrightAlgorithm_def Let_def split: sum.splits)
  from build_routes_count [OF st] have "length (bs_routes st) \<le> length (expandVehicles vehicles)"
    by (simp add: initialState_def)
  moreover from res rs have "length rs \<le> length (bs_routes st)"
    using merge_routes_count [of "distances ls" "bs_routes st" "bs_vehicles st" "sortSavings svs" rs "snd res"]
    by simp
  ultimately show ?thesis by (simp add: length_expandVehicles)
qed

text \<open>The route at position \<open>k\<close> of the builder has the vehicle at position \<open>k\<close> of the pool.\<close>

lemma map_veh_id_update:
  "map veh_id (vs[i := (vs ! i)\<lparr>remainingCapacity := x\<rparr>]) = map veh_id vs"
proof (cases "i < length vs")
  case True
  have "map veh_id (vs[i := (vs ! i)\<lparr>remainingCapacity := x\<rparr>]) =
        (map veh_id vs)[i := veh_id (vs ! i)]"
    by (simp add: map_update)
  also have "\<dots> = map veh_id vs"
    using True by (metis list_update_id nth_map)
  finally show ?thesis .
next
  case False
  then show ?thesis by (simp add: list_update_beyond)
qed

lemma build_step_positions:
  assumes "build_step d depot st l = Inr st'"
    and "length (bs_routes st) = bs_index st"
    and "map veh_id (bs_vehicles st) = map veh_id V"
    and "\<forall>k<length (bs_routes st). vehicleId (bs_routes st ! k) = veh_id (V ! k)"
  shows "map veh_id (bs_vehicles st') = map veh_id V \<and>
         (\<forall>k<length (bs_routes st'). vehicleId (bs_routes st' ! k) = veh_id (V ! k))"
proof (cases "assignable st l")
  case False
  with assms show ?thesis by (simp add: build_step_skip)
next
  case True
  define i where "i = bs_index st"
  define vs where "vs = bs_vehicles st"
  from True assms(1) obtain x where
    st': "st' = \<lparr>bs_routes = bs_routes st @ [singletonRoute depot (vs ! i) l x],
           bs_vehicles = vs[i := (vs ! i)\<lparr>remainingCapacity :=
                                 js_sub (remainingCapacity (vs ! i)) (loc_demand l)\<rparr>],
           bs_index = i + 1\<rparr>"
    by (auto simp: build_step_assign i_def vs_def split: sum.splits)
  from True have i: "i < length vs" by (simp add: assignable_def i_def vs_def)
  have "veh_id (vs ! i) = map veh_id vs ! i" using i by simp
  also have "\<dots> = map veh_id V ! i" using assms(3) by (simp add: vs_def)
  also have "\<dots> = veh_id (V ! i)"
    using i assms(3) map_eq_imp_length_eq [OF assms(3)] by (simp add: vs_def)
  finally have new: "vehicleId (singletonRoute depot (vs ! i) l x) = veh_id (V ! i)"
    by (simp add: singletonRoute_def)
  have "vehicleId (bs_routes st' ! k) = veh_id (V ! k)" if "k < length (bs_routes st')" for k
  proof (cases "k < length (bs_routes st)")
    case True
    with assms(4) show ?thesis by (simp add: st' nth_append)
  next
    case False
    with that have "k = i" using assms(2) by (simp add: st' i_def)
    with new assms(2) show ?thesis by (simp add: st' nth_append i_def)
  qed
  moreover have "map veh_id (bs_vehicles st') = map veh_id V"
    using assms(3) by (simp add: st' map_veh_id_update vs_def)
  ultimately show ?thesis by blast
qed

lemma build_routes_positions:
  assumes "build_routes d depot st todo = Inr st'"
    and "length (bs_routes st) = bs_index st" and "bs_index st \<le> length (bs_vehicles st)"
    and "map veh_id (bs_vehicles st) = map veh_id V"
    and "\<forall>k<length (bs_routes st). vehicleId (bs_routes st ! k) = veh_id (V ! k)"
  shows "\<forall>k<length (bs_routes st'). vehicleId (bs_routes st' ! k) = veh_id (V ! k)"
  using assms
proof (induction todo arbitrary: st)
  case Nil
  then show ?case by simp
next
  case (Cons l todo)
  from Cons.prems(1) obtain st1 where
    st1: "build_step d depot st l = Inr st1" "build_routes d depot st1 todo = Inr st'"
    by (auto split: sum.splits)
  from build_step_count [OF st1(1) Cons.prems(2,3)]
    build_step_positions [OF st1(1) Cons.prems(2,4,5)]
  show ?case by (intro Cons.IH [OF st1(2)]) simp_all
qed

lemma initial_positions:
  assumes "build_routes d depot (initialState vehicles) todo = Inr st"
  shows "\<forall>k<length (bs_routes st). vehicleId (bs_routes st ! k) = veh_id (expandVehicles vehicles ! k)"
  by (rule build_routes_positions [OF assms]) (simp_all add: initialState_def)

section \<open>A depot that is not one of the locations\<close>

text \<open>
  When no location has the identifier of the depot, the table has no row for it: a run
  returns no route, or throws at the first read of that row.
\<close>

lemma savings_inner_no_row:
  assumes "\<And>b. dist d (loc_id depot) b = Inl TypeError"
  shows "savings_inner d depot l1 acc rest = Inr acc \<or>
         savings_inner d depot l1 acc rest = Inl TypeError"
  by (induction rest) (simp_all add: assms)

lemma savings_outer_no_row:
  assumes "\<And>b. dist d (loc_id depot) b = Inl TypeError"
  shows "savings_outer d depot ls acc todo = Inr acc \<or>
         savings_outer d depot ls acc todo = Inl TypeError"
proof (induction todo)
  case Nil
  show ?case by simp
next
  case (Cons l1 todo)
  with savings_inner_no_row [OF assms, of l1 acc ls] show ?case by auto
qed

lemma build_step_no_row:
  assumes "\<And>b. dist d (loc_id depot) b = Inl TypeError"
  shows "build_step d depot st l = Inr st \<or> build_step d depot st l = Inl TypeError"
  by (cases "assignable st l") (simp_all add: build_step_skip build_step_assign assms)

lemma build_routes_no_row:
  assumes "\<And>b. dist d (loc_id depot) b = Inl TypeError"
  shows "build_routes d depot st todo = Inr st \<or> build_routes d depot st todo = Inl TypeError"
proof (induction todo)
  case Nil
  show ?case by simp
next
  case (Cons l todo)
  with build_step_no_row [OF assms, of st l] show ?case by auto
qed

lemma merge_routes_empty: "merge_routes d ([], vs) svs = Inr ([], vs)"
  by (induction svs) (simp_all add: merge_step_def)

lemma clarkeWrightAlgorithm_no_row:
  assumes "loc_id depot \<notin> loc_id ` set ls"
  shows "clarkeWrightAlgorithm vehicles ls depot = Inr [] \<or>
         clarkeWrightAlgorithm vehicles ls depot = Inl TypeError"
proof -
  have no: "dist (distances ls) (loc_id depot) b = Inl TypeError" for b
    using assms by (rule dist_no_row)
  from savings_outer_no_row [OF no, of ls "[]" ls]
    build_routes_no_row [OF no, of "initialState vehicles" "nonDepotLocations ls depot"]
  show ?thesis
    by (auto simp: clarkeWrightAlgorithm_def Let_def calculateSavings_def initialState_def
        merge_routes_empty)
qed

text \<open>
  No run ends at a table entry that is missing in a row that is there: a run returns its
  routes or throws the \<^verbatim>\<open>TypeError\<close> of a missing row.
\<close>

theorem clarkeWrightAlgorithm_no_UndefinedDistance:
  "clarkeWrightAlgorithm vehicles locations depot \<noteq> Inl UndefinedDistance"
proof (cases "loc_id depot \<in> loc_id ` set locations")
  case True
  from clarkeWrightAlgorithm_inv [OF this, of vehicles] show ?thesis by auto
next
  case False
  from clarkeWrightAlgorithm_no_row [OF this, of vehicles] show ?thesis by auto
qed

section \<open>The depot is one of the locations\<close>

text \<open>
  The depot that \<^verbatim>\<open>createOptimization\<close> hands to the algorithm is one of the
  locations; this is the valid input of the claims below.
\<close>

lemma selectDepot_in_locations:
  assumes "selectDepot locations = Some depot"
  shows "depot \<in> set locations"
proof (cases "find isDepot locations")
  case None
  with assms show ?thesis
    by (cases locations) (simp_all add: selectDepot_def)
next
  case (Some l)
  with assms have "find isDepot locations = Some depot"
    by (simp add: selectDepot_def)
  then show ?thesis
    by (auto simp: find_Some_iff)
qed

lemma selectDepot_defined: "locations \<noteq> [] \<Longrightarrow> \<exists>depot. selectDepot locations = Some depot"
  by (cases locations) (auto simp: selectDepot_def split: option.splits)

section \<open>The claims about the routes\<close>

lemma route_inv_depotOnlyAtEnds:
  assumes "route_inv depot ls V r"
  shows "depotOnlyAtEnds depot r"
proof -
  from assms obtain mids where
    st: "stops r = depotStop depot 0 # mids @ [depotStop depot (Suc (length mids))]"
    and mids: "\<forall>m\<in>set mids. routable depot ls V m"
    unfolding route_inv_def by blast
  have "slice_inner (stops r) = mids"
    by (simp only: st slice_inner_ends)
  moreover from mids have "list_all (\<lambda>s. locationId s \<noteq> loc_id depot) mids"
    by (auto simp: list_all_iff routable_def)
  ultimately show ?thesis
    unfolding depotOnlyAtEnds_def by (simp add: st)
qed

text \<open>
  Claim C5. For every valid input, that is, when the depot is one of the locations, the
  algorithm returns, and every route it returns has the depot as its first stop and as its last
  stop, and no stop between them has the identifier of the depot.
\<close>

theorem routes_start_and_end_at_depot:
  assumes "depot \<in> set locations"
  shows "\<exists>rs. clarkeWrightAlgorithm vehicles locations depot = Inr rs \<and>
           (\<forall>r\<in>set rs. depotOnlyAtEnds depot r)"
proof -
  from assms have "loc_id depot \<in> loc_id ` set locations" by simp
  from clarkeWrightAlgorithm_inv [OF this, of vehicles] show ?thesis
    by (blast intro: route_inv_depotOnlyAtEnds)
qed

theorem routes_start_and_end_at_depot_witness:
  "ex_depot \<in> set (ex_locations 5 5) \<and>
   clarkeWrightAlgorithm [ex_vehicle 10 2] (ex_locations 5 5) ex_depot = Inr [ex_routeAB] \<and>
   depotOnlyAtEnds ex_depot ex_routeAB \<and>
   map locationId (stops ex_routeAB) = [''d'', ''a'', ''b'', ''d'']"
proof -
  have h: "ex_depot \<in> set (ex_locations 5 5)" by (simp add: ex_locations_def)
  show ?thesis
    using h routes_start_and_end_at_depot [OF h, of "[ex_vehicle 10 2]"]
    by (simp add: ex_run_10_2 ex_routeAB_def ex_stop_fields ex_fields)
qed

lemma route_inv_demand:
  assumes "route_inv depot ls (expandVehicles vehicles) r"
  shows "accumulated (map demand (slice_inner (stops r))) (totalCapacity r) \<and>
         (\<exists>v\<in>set vehicles. veh_id v = vehicleId r \<and> totalCapacity r \<le> capacity v)"
proof -
  from assms obtain mids vi where
    st: "stops r = depotStop depot 0 # mids @ [depotStop depot (Suc (length mids))]"
    and tc: "accumulated (map demand mids) (totalCapacity r)"
    and vi: "vi \<in> set (expandVehicles vehicles)" "veh_id vi = vehicleId r"
      "totalCapacity r \<le> capacity vi"
    unfolding route_inv_def by blast
  have "slice_inner (stops r) = mids"
    by (simp only: st slice_inner_ends)
  with tc have "accumulated (map demand (slice_inner (stops r))) (totalCapacity r)"
    by simp
  moreover from expandVehicles_fresh [OF vi(1)] vi(2,3)
  have "\<exists>v\<in>set vehicles. veh_id v = vehicleId r \<and> totalCapacity r \<le> capacity v"
    by auto
  ultimately show ?thesis by simp
qed

text \<open>
  Claim C6 as it is written fails. With three vehicles of capacity 0.6 and stops of demand
  0.1, 0.2 and 0.3, the second and third stop are merged first, with 0.2 + 0.3 = 0.5, and
  the first stop is merged with them, with 0.1 + 0.5 = 0.6 in binary64, which is not above
  the capacity. The route has \<open>totalCapacity\<close> 0.6, but the sum of the demands of its
  stops is above the capacity and is not the field: the exact sum by \<open>2 ^ -55\<close>, and the
  binary64 sum in the order of the stops, 0.6000000000000001, by \<open>2 ^ -53\<close>.
\<close>

theorem cumulative_demand_within_capacity_counterexample:
  "clarkeWrightAlgorithm [fl_vehicle] fl_locations ex_depot = Inr [fl_route] \<and>
   vehicleId fl_route = veh_id fl_vehicle \<and>
   map demand (slice_inner (stops fl_route)) = [dbl_0_1, dbl_0_2, dbl_0_3] \<and>
   capacity fl_vehicle < cumulativeDemand fl_route \<and>
   totalCapacity fl_route \<noteq> cumulativeDemand fl_route \<and>
   capacity fl_vehicle < jsSum (map demand (slice_inner (stops fl_route))) \<and>
   totalCapacity fl_route \<noteq> jsSum (map demand (slice_inner (stops fl_route)))"
proof -
  have inner: "map demand (slice_inner (stops fl_route)) = [dbl_0_1, dbl_0_2, dbl_0_3]"
    by (simp add: fl_route_def slice_inner_def ex_stop_fields fl_fields)
  have "capacity fl_vehicle < cumulativeDemand fl_route"
    "totalCapacity fl_route \<noteq> cumulativeDemand fl_route"
    unfolding cumulativeDemand_def inner
    by (simp_all add: fl_instance fl_route_def dbl_values)
  moreover have "capacity fl_vehicle < jsSum (map demand (slice_inner (stops fl_route)))"
    "totalCapacity fl_route \<noteq> jsSum (map demand (slice_inner (stops fl_route)))"
    unfolding inner jsSum_fl
    by (simp_all add: fl_instance fl_route_def dbl_values)
  moreover have "vehicleId fl_route = veh_id fl_vehicle"
    by (simp add: fl_route_def fl_instance)
  ultimately show ?thesis
    using fl_run inner by simp
qed

text \<open>
  Claim C6, as the code has it. For every valid input, that is, when the depot is one of the
  locations and the vehicle types have distinct identifiers, the algorithm returns, and for
  every route it returns the field \<open>totalCapacity\<close> is the demand that the code accumulated
  over the stops between the two depot stops, the demand of the stop for a singleton route
  and the binary64 sum of the fields of the two routes at each merge, and this field is at
  most the capacity of the one vehicle type whose identifier the route carries.
\<close>

theorem accumulated_demand_within_capacity:
  assumes "depot \<in> set locations" and "distinct (map veh_id vehicles)"
  shows "\<exists>rs. clarkeWrightAlgorithm vehicles locations depot = Inr rs \<and>
           (\<forall>r\<in>set rs. accumulated (map demand (slice_inner (stops r))) (totalCapacity r) \<and>
              (\<exists>v\<in>set vehicles. veh_id v = vehicleId r \<and>
                 (\<forall>v'\<in>set vehicles. veh_id v' = vehicleId r \<longrightarrow> v' = v) \<and>
                 totalCapacity r \<le> capacity v))"
proof -
  from assms(1) have "loc_id depot \<in> loc_id ` set locations" by simp
  from clarkeWrightAlgorithm_inv [OF this, of vehicles] obtain rs where
    rs: "clarkeWrightAlgorithm vehicles locations depot = Inr rs"
    and inv: "\<forall>r\<in>set rs. route_inv depot locations (expandVehicles vehicles) r"
    by blast
  have "accumulated (map demand (slice_inner (stops r))) (totalCapacity r) \<and>
        (\<exists>v\<in>set vehicles. veh_id v = vehicleId r \<and>
           (\<forall>v'\<in>set vehicles. veh_id v' = vehicleId r \<longrightarrow> v' = v) \<and>
           totalCapacity r \<le> capacity v)" if "r \<in> set rs" for r
  proof -
    from that inv route_inv_demand [of depot locations vehicles r] obtain v where
      tc: "accumulated (map demand (slice_inner (stops r))) (totalCapacity r)"
      and v: "v \<in> set vehicles" "veh_id v = vehicleId r" "totalCapacity r \<le> capacity v"
      by blast
    have inj: "inj_on veh_id (set vehicles)"
      using assms(2) by (simp add: distinct_map)
    have "v' = v" if "v' \<in> set vehicles" "veh_id v' = vehicleId r" for v'
      using inj_onD [OF inj, of v' v] that v(1,2) by simp
    with tc v show ?thesis by blast
  qed
  with rs show ?thesis by blast
qed

theorem accumulated_demand_within_capacity_witness:
  "ex_depot \<in> set fl_locations \<and> distinct (map veh_id [fl_vehicle]) \<and>
   clarkeWrightAlgorithm [fl_vehicle] fl_locations ex_depot = Inr [fl_route] \<and>
   accumulated (map demand (slice_inner (stops fl_route))) (totalCapacity fl_route) \<and>
   veh_id fl_vehicle = vehicleId fl_route \<and>
   totalCapacity fl_route \<le> capacity fl_vehicle"
proof -
  have h: "ex_depot \<in> set fl_locations" "distinct (map veh_id [fl_vehicle])"
    by (simp_all add: fl_locations_def)
  show ?thesis
    using h accumulated_demand_within_capacity [OF h]
    by (simp add: fl_run fl_instance)
qed

text \<open>
  Claim C9. A non-depot stop whose demand exceeds the capacity of every vehicle type that has
  at least one vehicle appears in no route of the output, and the algorithm returns normally:
  for locations with distinct identifiers, one of which is the depot.
\<close>

theorem unroutable_stop_is_omitted:
  assumes "depot \<in> set locations" and "distinct (map loc_id locations)"
    and "l \<in> set locations" and "loc_id l \<noteq> loc_id depot"
    and "\<forall>v\<in>set vehicles. 0 < count v \<longrightarrow> capacity v < loc_demand l"
  shows "\<exists>rs. clarkeWrightAlgorithm vehicles locations depot = Inr rs \<and>
           (\<forall>r\<in>set rs. \<not> containsLoc r (loc_id l))"
proof -
  from assms(1) have "loc_id depot \<in> loc_id ` set locations" by simp
  from clarkeWrightAlgorithm_inv [OF this, of vehicles] obtain rs where
    rs: "clarkeWrightAlgorithm vehicles locations depot = Inr rs"
    and inv: "\<forall>r\<in>set rs. route_inv depot locations (expandVehicles vehicles) r"
    by blast
  have "\<not> containsLoc r (loc_id l)" if "r \<in> set rs" for r
  proof
    assume "containsLoc r (loc_id l)"
    then obtain s where s: "s \<in> set (stops r)" "locationId s = loc_id l"
      by (auto simp: containsLoc_def list_ex_iff)
    from that inv obtain mids where
      st: "stops r = depotStop depot 0 # mids @ [depotStop depot (Suc (length mids))]"
      and mids: "\<forall>m\<in>set mids. routable depot locations (expandVehicles vehicles) m"
      unfolding route_inv_def by blast
    from s st assms(4) have "s \<in> set mids"
      by (auto simp: depotStop_def)
    with mids s(2) obtain l' vi where
      l': "l' \<in> set locations" "loc_id l' = loc_id l"
      and vi: "vi \<in> set (expandVehicles vehicles)" "loc_demand l' \<le> capacity vi"
      unfolding routable_def by metis
    from l' assms(2,3) have "l' = l"
      by (auto simp: distinct_map dest: inj_onD)
    with vi expandVehicles_fresh [OF vi(1)] assms(5) show False by fastforce
  qed
  with rs show ?thesis by blast
qed

theorem unroutable_stop_is_omitted_witness:
  "ex_depot \<in> set (ex_locations 5 50) \<and> distinct (map loc_id (ex_locations 5 50)) \<and>
   ex_stopB 50 \<in> set (ex_locations 5 50) \<and> loc_id (ex_stopB 50) \<noteq> loc_id ex_depot \<and>
   0 < count (ex_vehicle 10 2) \<and> capacity (ex_vehicle 10 2) < loc_demand (ex_stopB 50) \<and>
   clarkeWrightAlgorithm [ex_vehicle 10 2] (ex_locations 5 50) ex_depot = Inr [ex_routeA] \<and>
   \<not> containsLoc ex_routeA (loc_id (ex_stopB 50))"
proof -
  have h: "ex_depot \<in> set (ex_locations 5 50)" "distinct (map loc_id (ex_locations 5 50))"
    "ex_stopB 50 \<in> set (ex_locations 5 50)" "loc_id (ex_stopB 50) \<noteq> loc_id ex_depot"
    "\<forall>v\<in>set [ex_vehicle 10 2]. 0 < count v \<longrightarrow> capacity v < loc_demand (ex_stopB 50)"
    by (simp_all add: ex_locations_def ex_fields ex_instance)
  show ?thesis
    using h unroutable_stop_is_omitted [OF h]
    by (simp add: ex_run_50 ex_instance ex_fields)
qed

text \<open>
  Claim C10. For every input, a run that returns routes returns no more of them than there
  are vehicle instances, the sum of the counts of the vehicle types: the route builder leaves
  as many routes as positions the cursor has passed in the pool, the route at each position
  with the vehicle at that position of the pool, and a step of the merger either leaves the
  routes as they are or has one route less. When the depot is one of the
  locations the run does return.
\<close>

theorem route_count_at_most_fleet_size:
  "(\<forall>rs. clarkeWrightAlgorithm vehicles locations depot = Inr rs \<longrightarrow>
          length rs \<le> sum_list (map count vehicles)) \<and>
   (\<forall>d todo st. build_routes d depot (initialState vehicles) todo = Inr st \<longrightarrow>
          length (bs_routes st) = bs_index st \<and> bs_index st \<le> sum_list (map count vehicles) \<and>
          (\<forall>k<length (bs_routes st).
              vehicleId (bs_routes st ! k) = veh_id (expandVehicles vehicles ! k))) \<and>
   (\<forall>d rs vs sv rs' vs'. merge_step d (rs, vs) sv = Inr (rs', vs') \<longrightarrow>
          rs' = rs \<or> Suc (length rs') = length rs) \<and>
   (depot \<in> set locations \<longrightarrow>
          (\<exists>rs. clarkeWrightAlgorithm vehicles locations depot = Inr rs))"
proof (intro conjI allI impI)
  fix rs assume "clarkeWrightAlgorithm vehicles locations depot = Inr rs"
  then show "length rs \<le> sum_list (map count vehicles)"
    by (rule clarkeWrightAlgorithm_count)
next
  fix d todo st assume b: "build_routes d depot (initialState vehicles) todo = Inr st"
  from build_routes_count [OF b]
  show "length (bs_routes st) = bs_index st" "bs_index st \<le> sum_list (map count vehicles)"
    by (simp_all add: initialState_def length_expandVehicles)
  show "vehicleId (bs_routes st ! k) = veh_id (expandVehicles vehicles ! k)"
    if "k < length (bs_routes st)" for k
    using that initial_positions [OF b] by simp
next
  fix d rs vs sv rs' vs' assume "merge_step d (rs, vs) sv = Inr (rs', vs')"
  then show "rs' = rs \<or> Suc (length rs') = length rs"
    by (rule merge_step_count)
next
  assume "depot \<in> set locations"
  then have "loc_id depot \<in> loc_id ` set locations" by simp
  from clarkeWrightAlgorithm_inv [OF this, of vehicles]
  show "\<exists>rs. clarkeWrightAlgorithm vehicles locations depot = Inr rs" by blast
qed

theorem route_count_at_most_fleet_size_witness:
  "clarkeWrightAlgorithm [ex_vehicle 10 2] (ex_locations 5 5) ex_depot = Inr [ex_routeAB] \<and>
   length [ex_routeAB] \<le> sum_list (map count [ex_vehicle 10 2]) \<and>
   build_routes (distances (ex_locations 5 5)) ex_depot (initialState [ex_vehicle 10 2])
     (nonDepotLocations (ex_locations 5 5) ex_depot) =
     Inr \<lparr>bs_routes = [ex_routeA, ex_routeB],
          bs_vehicles = [(newInstance (ex_vehicle 10 2))\<lparr>remainingCapacity := 5\<rparr>,
                         (newInstance (ex_vehicle 10 2))\<lparr>remainingCapacity := 5\<rparr>],
          bs_index = 2\<rparr> \<and>
   length [ex_routeA, ex_routeB] = 2 \<and> (2::nat) \<le> sum_list (map count [ex_vehicle 10 2]) \<and>
   vehicleId ([ex_routeA, ex_routeB] ! 1) = veh_id (expandVehicles [ex_vehicle 10 2] ! 1) \<and>
   ex_depot \<in> set (ex_locations 5 5)"
proof -
  have h: "ex_depot \<in> set (ex_locations 5 5)" by (simp add: ex_locations_def)
  show ?thesis
    using h route_count_at_most_fleet_size [of "[ex_vehicle 10 2]" "ex_locations 5 5" ex_depot]
    by (simp add: ex_run_10_2 ex_build_10_2 ex_instance)
      (simp add: ex_routeB_def expandVehicles_def ex_instance numeral_2_eq_2)
qed

section \<open>The scenarios and the cursor\<close>

text \<open>
  Claim C1 as it is written fails. With one vehicle of capacity 10 the output is not a route
  that visits both stops with total demand 10.
\<close>

theorem single_vehicle_merged_route_counterexample:
  "\<not> (\<exists>r. clarkeWrightAlgorithm [ex_vehicle 10 1] (ex_locations 5 5) ex_depot = Inr [r] \<and>
         containsLoc r ''a'' \<and> containsLoc r ''b'' \<and> totalCapacity r = 10)"
  unfolding ex_run_10_1
  by (simp add: ex_routeA_def)

text \<open>
  Claim C1, as the code has it. For the depot at \<open>(0, 0)\<close>, the stops at \<open>(0, 1)\<close> and
  \<open>(0, 2)\<close> with demand 5 each and one vehicle type of capacity 10 and count 1: the only
  vehicle instance goes to the first stop, the second stop gets no route, and the output is the
  single unmerged route depot, first stop, depot, with total demand 5. (With count 2 the output
  is the merged route of the claim: lemma \<open>ex_run_10_2\<close>.)
\<close>

theorem single_vehicle_routes_first_stop_only:
  "clarkeWrightAlgorithm [ex_vehicle 10 1] (ex_locations 5 5) ex_depot = Inr [ex_routeA] \<and>
   map locationId (stops ex_routeA) = [''d'', ''a'', ''d''] \<and>
   totalCapacity ex_routeA = 5 \<and> \<not> containsLoc ex_routeA ''b''"
  unfolding ex_run_10_1
  by (simp add: ex_routeA_def containsLoc_def ex_stop_fields ex_fields)

text \<open>
  Claim C4 as it is written fails. With two vehicles of capacity 4 the output is not a list of
  two routes, and with one it is not a list of one route.
\<close>

theorem capacity_4_two_singletons_counterexample:
  "\<not> (\<exists>r1 r2. clarkeWrightAlgorithm [ex_vehicle 4 2] (ex_locations 5 5) ex_depot = Inr [r1, r2]) \<and>
   \<not> (\<exists>r. clarkeWrightAlgorithm [ex_vehicle 4 1] (ex_locations 5 5) ex_depot = Inr [r])"
  unfolding ex_run_4
  by simp

text \<open>
  Claim C4, as the code has it. For the same stops and a vehicle type of capacity 4, with any
  count: the demand 5 of each stop exceeds the remaining capacity 4 of the vehicle under the
  cursor, so the route builder leaves its state as it was, with no route and the cursor
  at 0; the merger finds no route for either stop of a saving and merges nothing; the output
  is the empty list of routes, both stops unrouted.
\<close>

theorem capacity_4_routes_nothing:
  "build_routes (distances (ex_locations 5 5)) ex_depot (initialState [ex_vehicle 4 n])
     (nonDepotLocations (ex_locations 5 5) ex_depot) = Inr (initialState [ex_vehicle 4 n]) \<and>
   bs_routes (initialState [ex_vehicle 4 n]) = [] \<and>
   bs_index (initialState [ex_vehicle 4 n]) = 0 \<and>
   find_routes [] 0 ''a'' ''b'' None None = (None, None) \<and>
   clarkeWrightAlgorithm [ex_vehicle 4 n] (ex_locations 5 5) ex_depot = Inr []"
  unfolding ex_build_4 ex_run_4
  by (simp add: initialState_def)

text \<open>
  Claim C2 as it is written fails. With one vehicle of capacity 4 the first stop, of demand 5,
  is skipped, and the cursor stays at 0.
\<close>

theorem cursor_advances_on_skip_counterexample:
  "\<not> (\<exists>st'. build_step (distances (ex_locations 5 5)) ex_depot (initialState [ex_vehicle 4 1])
                (ex_stopA 5) = Inr st' \<and>
              bs_index st' = bs_index (initialState [ex_vehicle 4 1]) + 1)"
  by (simp add: build_step_skip assignable_def initialState_def expandVehicles_def ex_instance
      ex_fields)

text \<open>
  Claim C2, as the code has it. A step of the route builder that assigns the stop a route,
  which it does when a vehicle is left at the cursor and the demand of the stop is at most its
  remaining capacity, adds one route and advances the cursor by exactly one. A step that skips
  the stop leaves the state, and with it the cursor, as it was.
\<close>

theorem cursor_advances_exactly_on_assignment:
  assumes "build_step d depot st l = Inr st'"
  shows "if assignable st l
         then bs_index st' = bs_index st + 1 \<and> length (bs_routes st') = length (bs_routes st) + 1
         else st' = st"
proof (cases "assignable st l")
  case False
  with assms show ?thesis by (simp add: build_step_skip)
next
  case True
  with assms show ?thesis
    by (auto simp: build_step_assign split: sum.splits)
qed

theorem cursor_advances_exactly_on_assignment_witness:
  "build_step (distances (ex_locations 5 5)) ex_depot
     \<lparr>bs_routes = [ex_routeA],
      bs_vehicles = [(newInstance (ex_vehicle 10 2))\<lparr>remainingCapacity := 5\<rparr>,
                     newInstance (ex_vehicle 10 2)],
      bs_index = 1\<rparr> (ex_stopB 5) =
   Inr \<lparr>bs_routes = [ex_routeA, ex_routeB],
        bs_vehicles = [(newInstance (ex_vehicle 10 2))\<lparr>remainingCapacity := 5\<rparr>,
                       (newInstance (ex_vehicle 10 2))\<lparr>remainingCapacity := 5\<rparr>],
        bs_index = 2\<rparr> \<and>
   assignable
     \<lparr>bs_routes = [ex_routeA],
      bs_vehicles = [(newInstance (ex_vehicle 10 2))\<lparr>remainingCapacity := 5\<rparr>,
                     newInstance (ex_vehicle 10 2)],
      bs_index = 1\<rparr> (ex_stopB 5) \<and>
   (2::nat) = 1 + 1 \<and> length [ex_routeA, ex_routeB] = length [ex_routeA] + 1"
proof -
  have step: "build_step (distances (ex_locations 5 5)) ex_depot
     \<lparr>bs_routes = [ex_routeA],
      bs_vehicles = [(newInstance (ex_vehicle 10 2))\<lparr>remainingCapacity := 5\<rparr>,
                     newInstance (ex_vehicle 10 2)],
      bs_index = 1\<rparr> (ex_stopB 5) =
   Inr \<lparr>bs_routes = [ex_routeA, ex_routeB],
        bs_vehicles = [(newInstance (ex_vehicle 10 2))\<lparr>remainingCapacity := 5\<rparr>,
                       (newInstance (ex_vehicle 10 2))\<lparr>remainingCapacity := 5\<rparr>],
        bs_index = 2\<rparr>"
    by (simp add: build_step_def Let_def ex_dist ex_fields ex_instance ex_routeB_def js_sub_10_5)
  show ?thesis
    using step cursor_advances_exactly_on_assignment [OF step]
    by (simp add: assignable_def ex_instance ex_fields)
qed

end
